theory Spec2Isabelle
  imports Complex_Main "HOL-Library.Word" "HOL-Library.Log_Nat"
begin

unbundle bit_operations_syntax

section \<open>JavaScript values used by the stream code\<close>

text \<open>
  A \<^verbatim>\<open>Uint8Array\<close> is a list of bytes. A JavaScript \<^verbatim>\<open>number\<close> is a double; it is
  modelled by the rational it stands for: every number the modelled code computes is
  finite (the frame rate is taken positive where it divides). The only results that are
  not integers are those of \<^verbatim>\<open>1_000_000 / fps\<close> and of the sums and differences with
  it in the media source decoder, and these operations round their exact result to the
  nearest double (\<open>js_add\<close>, \<open>js_sub\<close>, \<open>js_div\<close> below).
\<close>

type_synonym byte = "8 word"
type_synonym number = rat

datatype exn =
  Throw string        \<comment> \<open>\<^verbatim>\<open>throw "..."\<close> of the source\<close>
| RangeError          \<comment> \<open>raised by \<^verbatim>\<open>DataView\<close> and typed arrays out of range\<close>
| JsError string      \<comment> \<open>\<^verbatim>\<open>throw new Error("...")\<close>\<close>

text \<open>Sequencing of fallible steps: the first exception ends the computation.\<close>

definition and_then :: "exn + 'a \<Rightarrow> ('a \<Rightarrow> exn + 'b) \<Rightarrow> exn + 'b" where
  "and_then r f = (case r of Inl e \<Rightarrow> Inl e | Inr x \<Rightarrow> f x)"

fun seq :: "('s \<Rightarrow> exn + 's) list \<Rightarrow> 's \<Rightarrow> exn + 's" where
  "seq [] s = Inr s"
| "seq (w # ws) s = and_then (w s) (seq ws)"

text \<open>\<^verbatim>\<open>ToInteger\<close>: truncation towards zero.\<close>

definition js_trunc :: "number \<Rightarrow> int" where
  "js_trunc x = (if 0 \<le> x then \<lfloor>x\<rfloor> else \<lceil>x\<rceil>)"

text \<open>\<^verbatim>\<open>ToUint32\<close>, \<^verbatim>\<open>ToUint16\<close>, \<^verbatim>\<open>ToUint8\<close>: truncate, then reduce modulo the width.\<close>

definition ToUint32 :: "number \<Rightarrow> 32 word" where
  "ToUint32 x = word_of_int (js_trunc x)"

definition ToUint16 :: "number \<Rightarrow> 16 word" where
  "ToUint16 x = word_of_int (js_trunc x)"

definition ToUint8 :: "number \<Rightarrow> byte" where
  "ToUint8 x = word_of_int (js_trunc x)"

text \<open>
  Rounding to the nearest double, ties to even. A double other than 0 is an integer of
  at most 53 bits times a power of two; for \<open>2 ^ e \<le> \<bar>x\<bar> < 2 ^ (e + 1)\<close> the doubles
  around \<open>x\<close> are the multiples of \<open>2 ^ (e - 52)\<close>. Overflow and the subnormal range
  (magnitudes of \<open>2 ^ 1024\<close> and more, or below \<open>2 ^ - 1022\<close>) are left out: the stream's
  timestamps are far from both.
\<close>

definition round_half_even :: "rat \<Rightarrow> int" where
  "round_half_even x =
     (let f = \<lfloor>x\<rfloor>; r = x - of_int f
      in if r < 1 / 2 then f else if 1 / 2 < r then f + 1 else if even f then f else f + 1)"

definition pow2 :: "int \<Rightarrow> rat" where
  "pow2 e = (if 0 \<le> e then 2 ^ nat e else 1 / 2 ^ nat (- e))"

text \<open>The exponent \<open>e\<close> with \<open>2 ^ e \<le> x < 2 ^ (e + 1)\<close>, for positive \<open>x\<close>.\<close>

definition binade :: "rat \<Rightarrow> int" where
  "binade x = (if 1 \<le> x then bitlen \<lfloor>x\<rfloor> - 1 else - bitlen (\<lceil>1 / x\<rceil> - 1))"

definition to_double :: "rat \<Rightarrow> number" where
  "to_double x =
     (if x = 0 then 0
      else let ulp = pow2 (binade \<bar>x\<bar> - 52) in of_int (round_half_even (x / ulp)) * ulp)"

text \<open>The operators \<^verbatim>\<open>+\<close>, \<^verbatim>\<open>-\<close> and \<^verbatim>\<open>/\<close> on numbers.\<close>

definition js_add :: "number \<Rightarrow> number \<Rightarrow> number" where
  "js_add a b = to_double (a + b)"

definition js_sub :: "number \<Rightarrow> number \<Rightarrow> number" where
  "js_sub a b = to_double (a - b)"

definition js_div :: "number \<Rightarrow> number \<Rightarrow> number" where
  "js_div a b = to_double (a / b)"

text \<open>Byte orders of \<^verbatim>\<open>DataView.setUint16\<close> and \<^verbatim>\<open>DataView.setUint32\<close>.\<close>

definition be16 :: "16 word \<Rightarrow> byte list" where
  "be16 w = [ucast (drop_bit 8 w), ucast w]"

definition be32 :: "32 word \<Rightarrow> byte list" where
  "be32 w = [ucast (drop_bit 24 w), ucast (drop_bit 16 w), ucast (drop_bit 8 w), ucast w]"

definition bytes16 :: "bool \<Rightarrow> 16 word \<Rightarrow> byte list" where
  "bytes16 le w = (if le then rev (be16 w) else be16 w)"

definition bytes32 :: "bool \<Rightarrow> 32 word \<Rightarrow> byte list" where
  "bytes32 le w = (if le then rev (be32 w) else be32 w)"

text \<open>Reading a big-endian 32-bit value back (\<^verbatim>\<open>DataView.getUint32\<close>).\<close>

definition rd32 :: "byte list \<Rightarrow> nat \<Rightarrow> nat" where
  "rd32 bs p = unat (bs ! p) * 16777216 + unat (bs ! (p + 1)) * 65536
             + unat (bs ! (p + 2)) * 256 + unat (bs ! (p + 3))"

text \<open>
  A store of \<open>bs\<close> into a typed array at offset \<open>p\<close>, used where the source has
  already checked that the bytes fit.
\<close>

definition write_at :: "'a list \<Rightarrow> nat \<Rightarrow> 'a list \<Rightarrow> 'a list" where
  "write_at buf p bs = take p buf @ bs @ drop (p + length bs) buf"

text \<open>\<^verbatim>\<open>TypedArray.prototype.set(src, offset)\<close>: a \<^verbatim>\<open>RangeError\<close> when \<open>src\<close> does not fit.\<close>

definition u8set :: "byte list \<Rightarrow> byte list \<Rightarrow> nat \<Rightarrow> exn + byte list" where
  "u8set target src off =
     (if off + length src > length target then Inl RangeError
      else Inr (write_at target off src))"

text \<open>\<^verbatim>\<open>TypedArray.prototype.slice(begin, end)\<close> for non-negative arguments: both are clamped.\<close>

definition slice :: "'a list \<Rightarrow> nat \<Rightarrow> nat \<Rightarrow> 'a list" where
  "slice xs b e = drop b (take e xs)"

text \<open>
  Reading element \<open>i\<close> of a \<^verbatim>\<open>Uint8Array\<close> and using it as an integer operand or storing
  it into another \<^verbatim>\<open>Uint8Array\<close>: out of range the read is \<^verbatim>\<open>undefined\<close>, which
  both uses turn into 0.
\<close>

definition u8_at :: "byte list \<Rightarrow> nat \<Rightarrow> byte" where
  "u8_at xs i = (if i < length xs then xs ! i else 0)"

section \<open>ByteBuffer (stream/buffer.ts)\<close>

text \<open>
  The methods are defined on every extension of the record, so that a caller can carry
  the local variables its closures assign along with the buffer.

  The typed array of a \<^verbatim>\<open>ByteBuffer\<close> always starts at offset 0 of its
  \<^verbatim>\<open>ArrayBuffer\<close> in the modelled callers (it is created by the constructor, or is a
  fresh copy), so a \<^verbatim>\<open>DataView\<close> on \<^verbatim>\<open>buffer.buffer\<close> at \<open>position\<close> addresses
  element \<open>position\<close> of \<open>buffer\<close>.
\<close>

record ByteBuffer =
  position :: nat
  limit :: nat
  littleEndian :: bool
  buffer :: "byte list"

definition ByteBuffer_new :: "nat \<Rightarrow> bool \<Rightarrow> ByteBuffer" where
  "ByteBuffer_new len le =
     \<lparr>position = 0, limit = len, littleEndian = le, buffer = replicate len 0\<rparr>"

definition ByteBuffer_of :: "byte list \<Rightarrow> bool \<Rightarrow> ByteBuffer" where
  "ByteBuffer_of v le =
     \<lparr>position = 0, limit = length v, littleEndian = le, buffer = v\<rparr>"

definition bytesUsed :: "'a ByteBuffer_scheme \<Rightarrow> nat \<Rightarrow> bool \<Rightarrow> exn + 'a ByteBuffer_scheme" where
  "bytesUsed b amount reading =
     (let b' = b\<lparr>position := position b + amount\<rparr> in
      if reading \<and> position b' > limit b' then Inl (Throw ''failed to read over the limit'')
      else Inr b')"

text \<open>
  \<^verbatim>\<open>useDataView\<close> returns the view; the model returns the offset at which the view
  starts, together with the updated buffer object.
\<close>

definition useDataView :: "'a ByteBuffer_scheme \<Rightarrow> nat \<Rightarrow> bool \<Rightarrow> nat option \<Rightarrow> exn + (nat \<times> 'a ByteBuffer_scheme)" where
  "useDataView b len reading index =
     (let pos = (case index of Some i \<Rightarrow> i | None \<Rightarrow> position b);
          maxPosition = pos + len
      in if maxPosition > length (buffer b) then Inl (Throw ''failed to write over the capacity'')
         else
           let b1 = (if maxPosition > limit b then b\<lparr>limit := maxPosition\<rparr> else b)
           in case index of
                None \<Rightarrow> and_then (bytesUsed b1 len reading) (\<lambda>b2. Inr (pos, b2))
              | Some _ \<Rightarrow> Inr (pos, b1))"

definition view_set :: "nat \<times> 'a ByteBuffer_scheme \<Rightarrow> nat \<Rightarrow> byte list \<Rightarrow> 'a ByteBuffer_scheme" where
  "view_set v off bs = (snd v)\<lparr>buffer := write_at (buffer (snd v)) (fst v + off) bs\<rparr>"

definition putU8Array :: "'a ByteBuffer_scheme \<Rightarrow> byte list \<Rightarrow> nat option \<Rightarrow> exn + 'a ByteBuffer_scheme" where
  "putU8Array b data index =
     (let pos = (case index of Some i \<Rightarrow> (if i \<noteq> 0 then i else position b) | None \<Rightarrow> position b);
          maxPosition = pos + length data
      in if maxPosition > length (buffer b) then Inl (Throw ''failed to write over the capacity'')
         else
           let b1 = (if maxPosition > limit b then b\<lparr>limit := maxPosition\<rparr> else b);
               b2 = b1\<lparr>buffer := write_at (buffer b1) pos data\<rparr>
           in case index of None \<Rightarrow> bytesUsed b2 (length data) False | Some _ \<Rightarrow> Inr b2)"

definition putU16Array :: "'a ByteBuffer_scheme \<Rightarrow> 16 word list \<Rightarrow> nat option \<Rightarrow> exn + 'a ByteBuffer_scheme" where
  "putU16Array b data index =
     (let pos = (case index of Some i \<Rightarrow> i | None \<Rightarrow> position b);
          maxPosition = pos + length data * 2
      in if maxPosition > length (buffer b) then Inl (Throw ''failed to write over the capacity'')
         else
           let b1 = b\<lparr>buffer := write_at (buffer b) pos (concat (map (bytes16 (littleEndian b)) data))\<rparr>;
               b2 = (if maxPosition > limit b1 then b1\<lparr>limit := maxPosition\<rparr> else b1)
           in case index of None \<Rightarrow> bytesUsed b2 (length data * 2) False | Some _ \<Rightarrow> Inr b2)"

definition putU32Array :: "'a ByteBuffer_scheme \<Rightarrow> 32 word list \<Rightarrow> nat option \<Rightarrow> exn + 'a ByteBuffer_scheme" where
  "putU32Array b data index =
     (let pos = (case index of Some i \<Rightarrow> i | None \<Rightarrow> position b);
          maxPosition = pos + length data * 4
      in if maxPosition > length (buffer b) then Inl (Throw ''failed to write over the capacity'')
         else
           let b1 = b\<lparr>buffer := write_at (buffer b) pos (concat (map (bytes32 (littleEndian b)) data))\<rparr>;
               b2 = (if maxPosition > limit b1 then b1\<lparr>limit := maxPosition\<rparr> else b1)
           in case index of None \<Rightarrow> bytesUsed b2 (length data * 4) False | Some _ \<Rightarrow> Inr b2)"

definition putU8 :: "'a ByteBuffer_scheme \<Rightarrow> number \<Rightarrow> nat option \<Rightarrow> exn + 'a ByteBuffer_scheme" where
  "putU8 b data index =
     and_then (useDataView b 1 False index) (\<lambda>view. Inr (view_set view 0 [ToUint8 data]))"

definition putU16 :: "'a ByteBuffer_scheme \<Rightarrow> number \<Rightarrow> nat option \<Rightarrow> exn + 'a ByteBuffer_scheme" where
  "putU16 b data index =
     and_then (useDataView b 2 False index)
       (\<lambda>view. Inr (view_set view 0 (bytes16 (littleEndian b) (ToUint16 data))))"

definition putI16 :: "'a ByteBuffer_scheme \<Rightarrow> number \<Rightarrow> nat option \<Rightarrow> exn + 'a ByteBuffer_scheme" where
  "putI16 b data index =
     and_then (useDataView b 2 False index)
       (\<lambda>view. Inr (view_set view 0 (bytes16 (littleEndian b) (ToUint16 data))))"

definition putU32 :: "'a ByteBuffer_scheme \<Rightarrow> number \<Rightarrow> nat option \<Rightarrow> exn + 'a ByteBuffer_scheme" where
  "putU32 b data index =
     and_then (useDataView b 4 False index)
       (\<lambda>view. Inr (view_set view 0 (bytes32 (littleEndian b) (ToUint32 data))))"

text \<open>\<^verbatim>\<open>putI32\<close> passes no byte order to \<^verbatim>\<open>setInt32\<close>: it always writes big-endian.\<close>

definition putI32 :: "'a ByteBuffer_scheme \<Rightarrow> number \<Rightarrow> nat option \<Rightarrow> exn + 'a ByteBuffer_scheme" where
  "putI32 b data index =
     and_then (useDataView b 4 False index)
       (\<lambda>view. Inr (view_set view 0 (be32 (ToUint32 data))))"

definition putU64 :: "'a ByteBuffer_scheme \<Rightarrow> number \<Rightarrow> nat option \<Rightarrow> exn + 'a ByteBuffer_scheme" where
  "putU64 b data index =
     (let hi = of_int \<lfloor>data / 4294967296\<rfloor> :: number;
          lo = of_nat (unat (ToUint32 data)) :: number
      in and_then (useDataView b 8 False index)
           (\<lambda>view.
              let b1 = (if littleEndian b
                        then view_set (fst view, view_set view 0 (bytes32 True (ToUint32 lo))) 4
                               (bytes32 True (ToUint32 hi))
                        else view_set (fst view, view_set view 0 (bytes32 False (ToUint32 hi))) 4
                               (bytes32 False (ToUint32 lo)))
              in bytesUsed b1 8 False))"

text \<open>
  \<^verbatim>\<open>putUtf8Raw\<close>: \<^verbatim>\<open>TextEncoder.encodeInto\<close> writes as many characters as fit into the
  rest of the array. Every text the emitter writes is an ASCII literal, one byte per
  character.
\<close>

definition putUtf8Raw :: "'a ByteBuffer_scheme \<Rightarrow> string \<Rightarrow> exn + 'a ByteBuffer_scheme" where
  "putUtf8Raw b text =
     (let written = min (length text) (length (buffer b) - position b);
          b1 = b\<lparr>buffer := write_at (buffer b) (position b) (map of_char (take written text))\<rparr>
      in and_then (bytesUsed b1 written False)
           (\<lambda>b2. if written \<noteq> length text then Inl (Throw ''failed to put utf8 text'') else Inr b2))"

definition getU8 :: "'a ByteBuffer_scheme \<Rightarrow> exn + (byte \<times> 'a ByteBuffer_scheme)" where
  "getU8 b =
     (if position b \<ge> length (buffer b) then Inl RangeError
      else and_then (bytesUsed b 1 True) (\<lambda>b'. Inr (buffer b ! position b, b')))"

definition flip :: "'a ByteBuffer_scheme \<Rightarrow> 'a ByteBuffer_scheme" where
  "flip b = b\<lparr>limit := position b, position := 0\<rparr>"

definition getPosition :: "'a ByteBuffer_scheme \<Rightarrow> nat" where
  "getPosition b = position b"

definition getRemainingBuffer :: "'a ByteBuffer_scheme \<Rightarrow> byte list" where
  "getRemainingBuffer b = slice (buffer b) (position b) (limit b)"

section \<open>Annex-B stream translator (video/annex_b_translator.ts)\<close>

datatype FrameType = Key | Delta

record VideoDecodeUnit =
  type :: FrameType
  data :: "byte list"
  timestampMicroseconds :: number
  durationMicroseconds :: number

record VideoDecoderConfig =
  codec :: string
  description :: "byte list option"
  hardwareAcceleration :: "string option"
  optimizeForLatency :: "bool option"

definition START_CODE_SHORT :: "byte list" where
  "START_CODE_SHORT = [0x00, 0x00, 0x01]"

definition START_CODE_LONG :: "byte list" where
  "START_CODE_LONG = [0x00, 0x00, 0x00, 0x01]"

text \<open>
  \<^verbatim>\<open>startsWith\<close> compares \<open>check[i]\<close> with \<open>buffer[position + i]\<close> for increasing \<open>i\<close>
  and stops at the first difference; a read past the end of \<open>buffer\<close> is
  \<^verbatim>\<open>undefined\<close> and differs from every byte.
\<close>

fun startsWith :: "byte list \<Rightarrow> nat \<Rightarrow> byte list \<Rightarrow> bool" where
  "startsWith buf pos [] = True"
| "startsWith buf pos (c # check) =
     (if pos < length buf \<and> buf ! pos = c
      then startsWith buf (Suc pos) check
      else False)"

text \<open>The result of \<^verbatim>\<open>submitDecodeUnit\<close>: \<^verbatim>\<open>{configure, chunk, error: false}\<close> or \<^verbatim>\<open>{error: true}\<close>.\<close>

datatype TranslateResult =
  Translated "VideoDecoderConfig option" "byte list option"   \<comment> \<open>\<open>configure\<close>, \<open>chunk\<close>\<close>
| TranslateError

text \<open>
  The fields of the abstract class. A method of a translator returns its result, or the
  exception it threw, together with the object as the call left it: an exception does not
  undo the assignments made before it.
\<close>

record CodecStreamTranslator =
  decoderConfig :: "VideoDecoderConfig option"
  currentFrame :: "byte list"

definition setBaseConfig ::
  "'a CodecStreamTranslator_scheme \<Rightarrow> VideoDecoderConfig \<Rightarrow> 'a CodecStreamTranslator_scheme" where
  "setBaseConfig s cfg = s\<lparr>decoderConfig := Some cfg\<rparr>"

definition checkFrameBufferSize ::
  "'a CodecStreamTranslator_scheme \<Rightarrow> nat \<Rightarrow> nat \<Rightarrow> exn + 'a CodecStreamTranslator_scheme" where
  "checkFrameBufferSize s currentSize requiredExtra =
     (if currentSize + requiredExtra > length (currentFrame s)
      then and_then (u8set (replicate ((currentSize + requiredExtra) * 2) 0) (currentFrame s) 0)
             (\<lambda>newFrame. Inr (s\<lparr>currentFrame := newFrame\<rparr>))
      else Inr s)"

text \<open>
  The closure \<^verbatim>\<open>handleStartCode\<close> of \<^verbatim>\<open>submitDecodeUnit\<close>; the variables it captures
  are arguments, and the new \<^verbatim>\<open>currentFrameSize\<close> is returned. The abstract method
  \<^verbatim>\<open>onChunkUnit\<close> is the parameter \<open>onChunkUnit\<close>.
\<close>

definition handleStartCode ::
  "('a CodecStreamTranslator_scheme \<Rightarrow> byte list \<Rightarrow> (exn + bool) \<times> 'a CodecStreamTranslator_scheme) \<Rightarrow>
   byte list \<Rightarrow> nat \<Rightarrow> nat \<Rightarrow> nat \<Rightarrow> 'a CodecStreamTranslator_scheme \<Rightarrow>
   (exn + nat) \<times> 'a CodecStreamTranslator_scheme" where
  "handleStartCode onChunkUnit dat unitBegin currentPosition currentFrameSize s =
     (let slc = slice dat unitBegin currentPosition in
      case onChunkUnit s slc of
        (Inl e, s1) \<Rightarrow> (Inl e, s1)
      | (Inr include, s1) \<Rightarrow>
          if include then
            (case checkFrameBufferSize s1 currentFrameSize (length slc + 4) of
               Inl e \<Rightarrow> (Inl e, s1)
             | Inr s2 \<Rightarrow>
                 (case and_then (putU32 (ByteBuffer_new 4 False) (of_nat (length slc)) None)
                         (\<lambda>sizeBuffer. u8set (currentFrame s2)
                                          (getRemainingBuffer (flip sizeBuffer)) currentFrameSize) of
                    Inl e \<Rightarrow> (Inl e, s2)
                  | Inr frame1 \<Rightarrow>
                      (case u8set frame1 slc (currentFrameSize + 4) of
                         Inl e \<Rightarrow> (Inl e, s2\<lparr>currentFrame := frame1\<rparr>)
                       | Inr frame2 \<Rightarrow>
                           (Inr (currentFrameSize + (length slc + 4)), s2\<lparr>currentFrame := frame2\<rparr>))))
          else (Inr currentFrameSize, s1))"

text \<open>
  The \<^verbatim>\<open>while\<close> loop of \<^verbatim>\<open>submitDecodeUnit\<close>. It returns \<open>unitBegin\<close>,
  \<open>currentPosition\<close> and \<open>currentFrameSize\<close> as the loop leaves them.
\<close>

function scanUnit ::
  "('a CodecStreamTranslator_scheme \<Rightarrow> byte list \<Rightarrow> (exn + bool) \<times> 'a CodecStreamTranslator_scheme) \<Rightarrow>
   byte list \<Rightarrow> nat \<Rightarrow> nat \<Rightarrow> nat \<Rightarrow> 'a CodecStreamTranslator_scheme \<Rightarrow>
   (exn + nat \<times> nat \<times> nat) \<times> 'a CodecStreamTranslator_scheme" where
  "scanUnit onChunkUnit dat unitBegin currentPosition currentFrameSize s =
     (if currentPosition < length dat then
        (let startCodeLength =
               (if startsWith dat currentPosition START_CODE_LONG then length START_CODE_LONG
                else if startsWith dat currentPosition START_CODE_SHORT then length START_CODE_SHORT
                else 0);
             foundStartCode =
               (startsWith dat currentPosition START_CODE_LONG
                \<or> startsWith dat currentPosition START_CODE_SHORT)
         in if foundStartCode then
              (case (if currentPosition \<noteq> 0
                     then handleStartCode onChunkUnit dat unitBegin currentPosition currentFrameSize s
                     else (Inr currentFrameSize, s)) of
                 (Inl e, s1) \<Rightarrow> (Inl e, s1)
               | (Inr currentFrameSize1, s1) \<Rightarrow>
                   scanUnit onChunkUnit dat (currentPosition + startCodeLength)
                     (currentPosition + startCodeLength) currentFrameSize1 s1)
            else scanUnit onChunkUnit dat unitBegin (currentPosition + 1) currentFrameSize s)
      else (Inr (unitBegin, currentPosition, currentFrameSize), s))"
  by pat_completeness auto
termination
  by (relation "measure (\<lambda>(h, dat, ub, pos, cfs, s). length dat - pos)")
     (auto simp: START_CODE_LONG_def START_CODE_SHORT_def split: if_splits)

declare scanUnit.simps [simp del]

text \<open>
  \<^verbatim>\<open>CodecStreamTranslator.submitDecodeUnit\<close>, with the three abstract methods as
  parameters.
\<close>

definition submitDecodeUnit ::
  "('a CodecStreamTranslator_scheme \<Rightarrow> VideoDecodeUnit \<Rightarrow> bool) \<Rightarrow>
   ('a CodecStreamTranslator_scheme \<Rightarrow> byte list \<Rightarrow> (exn + bool) \<times> 'a CodecStreamTranslator_scheme) \<Rightarrow>
   ('a CodecStreamTranslator_scheme \<Rightarrow> (exn + bool) \<times> 'a CodecStreamTranslator_scheme) \<Rightarrow>
   'a CodecStreamTranslator_scheme \<Rightarrow> VideoDecodeUnit \<Rightarrow>
   (exn + TranslateResult) \<times> 'a CodecStreamTranslator_scheme" where
  "submitDecodeUnit startProcessChunk onChunkUnit endChunk s unit =
     (if decoderConfig s = None then (Inr TranslateError, s)
      else if \<not> startProcessChunk s unit then (Inr (Translated None None), s)
      else
        case scanUnit onChunkUnit (data unit) 0 0 0 s of
          (Inl e, s1) \<Rightarrow> (Inl e, s1)
        | (Inr (unitBegin, currentPosition, currentFrameSize), s1) \<Rightarrow>
            (case handleStartCode onChunkUnit (data unit) unitBegin currentPosition currentFrameSize s1 of
               (Inl e, s2) \<Rightarrow> (Inl e, s2)
             | (Inr currentFrameSize2, s2) \<Rightarrow>
                 (case endChunk s2 of
                    (Inl e, s3) \<Rightarrow> (Inl e, s3)
                  | (Inr reconfigure, s3) \<Rightarrow>
                      (Inr (Translated (if reconfigure then decoderConfig s3 else None)
                              (Some (slice (currentFrame s3) 0 currentFrameSize2))), s3))))"

subsection \<open>H.264\<close>

definition h264NalType :: "byte \<Rightarrow> byte" where
  "h264NalType header = header AND 0x1f"

text \<open>
  \<^verbatim>\<open>Number.prototype.toString(16)\<close> on a non-negative integer: lower-case digits, no
  leading zero.
\<close>

definition hex_digit :: "nat \<Rightarrow> char" where
  "hex_digit d = ''0123456789abcdef'' ! d"

fun toString16 :: "nat \<Rightarrow> string" where
  "toString16 n = (if n < 16 then [hex_digit n] else toString16 (n div 16) @ [hex_digit (n mod 16)])"

definition numToHex :: "nat \<Rightarrow> string" where
  "numToHex n = (let hex = toString16 n in if length hex = 1 then ''0'' @ hex else hex)"

record H264Sps =
  profileIdc :: nat
  constraintFlags :: nat
  levelIdc :: nat
  avc1 :: string

definition h264ParseSps :: "ByteBuffer \<Rightarrow> exn + H264Sps" where
  "h264ParseSps sps =
     and_then (getU8 sps) (\<lambda>(nalHeader, b1).
       if nalHeader AND 0x1f \<noteq> 7 then Inl (JsError ''Buffer does not start with an SPS NAL unit'')
       else
         and_then (getU8 b1) (\<lambda>(profileIdc, b2).
         and_then (getU8 b2) (\<lambda>(constraintFlags, b3).
         and_then (getU8 b3) (\<lambda>(levelIdc, b4).
           Inr \<lparr>profileIdc = unat profileIdc, constraintFlags = unat constraintFlags,
                levelIdc = unat levelIdc,
                avc1 = ''avc1.'' @ numToHex (unat profileIdc) @ numToHex (unat constraintFlags)
                         @ numToHex (unat levelIdc)\<rparr>))))"

text \<open>
  \<^verbatim>\<open>h264MakeAvcC\<close>: the array is allocated with \<open>size\<close> zero bytes; \<open>data[i++] = v\<close>
  stores \<open>v\<close> modulo 256 at an index that is inside the array; \<^verbatim>\<open>sps.length >> 8\<close> is
  the length divided by 256.
\<close>

definition h264MakeAvcC :: "byte list \<Rightarrow> byte list \<Rightarrow> exn + byte list" where
  "h264MakeAvcC sps pps =
     (let size = 7 + 2 + length sps + 1 + 2 + length pps;
          d0 = replicate size (0 :: byte);
          d1 = d0[0 := 0x01];
          d2 = d1[1 := u8_at sps 1];
          d3 = d2[2 := u8_at sps 2];
          d4 = d3[3 := u8_at sps 3];
          d5 = d4[4 := 0xFF];
          d6 = d5[5 := 0xE1];
          d7 = d6[6 := of_nat (length sps div 256)];
          d8 = d7[7 := of_nat (length sps) AND 0xff]
      in and_then (u8set d8 sps 8) (\<lambda>d9.
           let i = 8 + length sps;
               d10 = d9[i := 0x01];
               d11 = d10[i + 1 := of_nat (length pps div 256)];
               d12 = d11[i + 2 := of_nat (length pps) AND 0xff]
           in u8set d12 pps (i + 3)))"

text \<open>The H.265 counterparts of \<^verbatim>\<open>h264NalType\<close> and \<^verbatim>\<open>h264MakeAvcC\<close>.\<close>

definition h265NalType :: "byte \<Rightarrow> byte" where
  "h265NalType header = drop_bit 1 header AND 0x3f"

text \<open>A run of stores \<^verbatim>\<open>data[i++] = v\<close>, one for each element of the list.\<close>

fun store_seq :: "byte list \<Rightarrow> nat \<Rightarrow> byte list \<Rightarrow> byte list" where
  "store_seq d i [] = d"
| "store_seq d i (v # vs) = store_seq (d[i := v]) (Suc i) vs"

definition h265MakeHvcC :: "byte list \<Rightarrow> byte list \<Rightarrow> byte list \<Rightarrow> exn + byte list" where
  "h265MakeHvcC vps sps pps =
     (let size = 23 + (3 * 3) + (2 + length vps) + (2 + length sps) + (2 + length pps);
          d0 = replicate size (0 :: byte);
          d1 = store_seq d0 0
                 [1,
                  drop_bit 1 (u8_at sps 1) AND 0x3f, 0, 0, 0, 0,
                  0, 0, 0, 0, 0, 0,
                  u8_at sps 12,
                  0xF0, 0x00,
                  0xFC, 0xFD, 0xF8, 0xF8,
                  0x00, 0x00,
                  0x0F, 3,
                  0x20, 0, 1, of_nat (length vps div 256), of_nat (length vps) AND 0xff]
      in and_then (u8set d1 vps 28) (\<lambda>d2.
           let i = 28 + length vps;
               d3 = store_seq d2 i
                      [0x21, 0, 1, of_nat (length sps div 256), of_nat (length sps) AND 0xff]
           in and_then (u8set d3 sps (i + 5)) (\<lambda>d4.
                let j = i + 5 + length sps;
                    d5 = store_seq d4 j
                           [0x22, 0, 1, of_nat (length pps div 256), of_nat (length pps) AND 0xff]
                in u8set d5 pps (j + 5))))"

record H264StreamVideoTranslator = CodecStreamTranslator +
  hasDescription :: bool
  pps :: "byte list option"
  sps :: "byte list option"

definition H264StreamVideoTranslator_new :: H264StreamVideoTranslator where
  "H264StreamVideoTranslator_new =
     \<lparr>decoderConfig = Some \<lparr>codec = ''undefined'', description = None,
                             hardwareAcceleration = None, optimizeForLatency = None\<rparr>,
      currentFrame = replicate 1000 0,
      H264StreamVideoTranslator.hasDescription = False, H264StreamVideoTranslator.pps = None, H264StreamVideoTranslator.sps = None\<rparr>"

definition h264_startProcessChunk :: "H264StreamVideoTranslator \<Rightarrow> VideoDecodeUnit \<Rightarrow> bool" where
  "h264_startProcessChunk s unit = (type unit = Key \<or> H264StreamVideoTranslator.hasDescription s)"

definition h264_onChunkUnit ::
  "H264StreamVideoTranslator \<Rightarrow> byte list \<Rightarrow> (exn + bool) \<times> H264StreamVideoTranslator" where
  "h264_onChunkUnit s slc =
     (let nalType = h264NalType (u8_at slc 0) in
      if nalType = 7 then
        (let s1 = s\<lparr>H264StreamVideoTranslator.sps := Some slc\<rparr> in
         case h264ParseSps (ByteBuffer_of slc False) of
           Inl e \<Rightarrow> (Inl e, s1)
         | Inr parsed \<Rightarrow>
             (Inr False,
              s1\<lparr>decoderConfig := map_option (\<lambda>c. c\<lparr>codec := avc1 parsed\<rparr>) (decoderConfig s1)\<rparr>))
      else if nalType = 8 then (Inr False, s\<lparr>H264StreamVideoTranslator.pps := Some slc\<rparr>)
      else (Inr True, s))"

definition h264_endChunk ::
  "H264StreamVideoTranslator \<Rightarrow> (exn + bool) \<times> H264StreamVideoTranslator" where
  "h264_endChunk s =
     (case decoderConfig s of
        None \<Rightarrow> (Inl (Throw ''UNREACHABLE''), s)
      | Some cfg \<Rightarrow>
          (case (H264StreamVideoTranslator.pps s, H264StreamVideoTranslator.sps s) of
             (Some p, Some q) \<Rightarrow>
               (case h264MakeAvcC q p of
                  Inl e \<Rightarrow> (Inl e, s)
                | Inr d \<Rightarrow>
                    (Inr True,
                     s\<lparr>H264StreamVideoTranslator.sps := None, H264StreamVideoTranslator.pps := None,
                       decoderConfig := Some (cfg\<lparr>description := Some d\<rparr>),
                       H264StreamVideoTranslator.hasDescription := True\<rparr>))
           | _ \<Rightarrow> (Inr False, s)))"

definition h264_submitDecodeUnit ::
  "H264StreamVideoTranslator \<Rightarrow> VideoDecodeUnit \<Rightarrow> (exn + TranslateResult) \<times> H264StreamVideoTranslator" where
  "h264_submitDecodeUnit = submitDecodeUnit h264_startProcessChunk h264_onChunkUnit h264_endChunk"

subsection \<open>H.265\<close>

record H265StreamVideoTranslator = CodecStreamTranslator +
  hasDescription :: bool
  vps :: "byte list option"
  sps :: "byte list option"
  pps :: "byte list option"

definition H265StreamVideoTranslator_new :: H265StreamVideoTranslator where
  "H265StreamVideoTranslator_new =
     \<lparr>decoderConfig = Some \<lparr>codec = ''undefined'', description = None,
                             hardwareAcceleration = None, optimizeForLatency = None\<rparr>,
      currentFrame = replicate 1000 0,
      hasDescription = False, vps = None, sps = None, pps = None\<rparr>"

definition h265_startProcessChunk :: "H265StreamVideoTranslator \<Rightarrow> VideoDecodeUnit \<Rightarrow> bool" where
  "h265_startProcessChunk s unit = (type unit = Key \<or> hasDescription s)"

definition h265_onChunkUnit ::
  "H265StreamVideoTranslator \<Rightarrow> byte list \<Rightarrow> (exn + bool) \<times> H265StreamVideoTranslator" where
  "h265_onChunkUnit s slc =
     (let nalType = h265NalType (u8_at slc 0) in
      if nalType = 32 then (Inr False, s\<lparr>vps := Some slc\<rparr>)
      else if nalType = 33 then (Inr False, s\<lparr>sps := Some slc\<rparr>)
      else if nalType = 34 then (Inr False, s\<lparr>pps := Some slc\<rparr>)
      else (Inr True, s))"

definition h265_endChunk ::
  "H265StreamVideoTranslator \<Rightarrow> (exn + bool) \<times> H265StreamVideoTranslator" where
  "h265_endChunk s =
     (case decoderConfig s of
        None \<Rightarrow> (Inl (Throw ''UNREACHABLE''), s)
      | Some cfg \<Rightarrow>
          (case (vps s, sps s, pps s) of
             (Some v, Some q, Some p) \<Rightarrow>
               (case h265MakeHvcC v q p of
                  Inl e \<Rightarrow> (Inl e, s)
                | Inr d \<Rightarrow>
                    (Inr True,
                     s\<lparr>decoderConfig := Some (cfg\<lparr>description := Some d\<rparr>),
                       vps := None, sps := None, pps := None,
                       hasDescription := True\<rparr>))
           | _ \<Rightarrow> (Inr False, s)))"

definition h265_submitDecodeUnit ::
  "H265StreamVideoTranslator \<Rightarrow> VideoDecodeUnit \<Rightarrow> (exn + TranslateResult) \<times> H265StreamVideoTranslator" where
  "h265_submitDecodeUnit = submitDecodeUnit h265_startProcessChunk h265_onChunkUnit h265_endChunk"

section \<open>Hardware video decoder pipe (video/video_decoder_pipe.ts)\<close>

text \<open>
  The platform's \<^verbatim>\<open>VideoDecoder\<close>: the size of its decode queue, which the platform
  changes as it works, and the calls the pipe has made on it. The calls are taken to
  succeed; \<^verbatim>\<open>reset\<close> empties the queue and \<^verbatim>\<open>decode\<close> adds a request to it.
\<close>

datatype EncodedVideoChunk = EncodedVideoChunk FrameType number number "byte list"

datatype DecoderCall =
  DecoderReset
| DecoderConfigure VideoDecoderConfig
| DecoderDecode EncodedVideoChunk
| DecoderClose

record VideoDecoder =
  decodeQueueSize :: nat
  calls :: "DecoderCall list"

definition decoder_reset :: "VideoDecoder \<Rightarrow> VideoDecoder" where
  "decoder_reset d = d\<lparr>decodeQueueSize := 0, calls := calls d @ [DecoderReset]\<rparr>"

definition decoder_configure :: "VideoDecoder \<Rightarrow> VideoDecoderConfig \<Rightarrow> VideoDecoder" where
  "decoder_configure d cfg = d\<lparr>calls := calls d @ [DecoderConfigure cfg]\<rparr>"

definition decoder_decode :: "VideoDecoder \<Rightarrow> EncodedVideoChunk \<Rightarrow> VideoDecoder" where
  "decoder_decode d c = d\<lparr>decodeQueueSize := decodeQueueSize d + 1, calls := calls d @ [DecoderDecode c]\<rparr>"

text \<open>The translator of a pipe is of one of the two subclasses.\<close>

datatype Translator =
  H264Translator H264StreamVideoTranslator
| H265Translator H265StreamVideoTranslator

definition translator_submitDecodeUnit ::
  "Translator \<Rightarrow> VideoDecodeUnit \<Rightarrow> (exn + TranslateResult) \<times> Translator" where
  "translator_submitDecodeUnit t unit =
     (case t of
        H264Translator x \<Rightarrow> (case h264_submitDecodeUnit x unit of (r, x1) \<Rightarrow> (r, H264Translator x1))
      | H265Translator x \<Rightarrow> (case h265_submitDecodeUnit x unit of (r, x1) \<Rightarrow> (r, H265Translator x1)))"

definition translator_setBaseConfig :: "Translator \<Rightarrow> VideoDecoderConfig \<Rightarrow> Translator" where
  "translator_setBaseConfig t cfg =
     (case t of
        H264Translator x \<Rightarrow> H264Translator (setBaseConfig x cfg)
      | H265Translator x \<Rightarrow> H265Translator (setBaseConfig x cfg))"

definition translator_getCurrentConfig :: "Translator \<Rightarrow> VideoDecoderConfig option" where
  "translator_getCurrentConfig t =
     (case t of H264Translator x \<Rightarrow> decoderConfig x | H265Translator x \<Rightarrow> decoderConfig x)"

text \<open>
  \<^verbatim>\<open>setup\<close> hands \<^verbatim>\<open>this.config\<close> to the translator, which keeps and updates that
  very object. A pipe with a translator therefore has one configuration object; the
  model keeps it in the translator, and the field \<open>config\<close> is the configuration of a
  pipe without translator.
\<close>

record VideoDecoderPipe =
  fps :: number
  errored :: bool
  config :: "VideoDecoderConfig option"
  translator :: "Translator option"
  decoder :: VideoDecoder
  decoderSetupFinished :: bool
  requestedIdr :: bool
  needsKeyFrame :: bool
  bufferedUnits :: "VideoDecodeUnit list"

definition VideoDecoderPipe_new :: VideoDecoderPipe where
  "VideoDecoderPipe_new =
     \<lparr>fps = 0, errored = False, config = None, translator = None,
      decoder = \<lparr>decodeQueueSize = 0, calls = []\<rparr>,
      decoderSetupFinished = False, requestedIdr = False, needsKeyFrame = True,
      bufferedUnits = []\<rparr>"

definition this_config :: "VideoDecoderPipe \<Rightarrow> VideoDecoderConfig option" where
  "this_config s = (case translator s of None \<Rightarrow> config s | Some t \<Rightarrow> translator_getCurrentConfig t)"

definition reset :: "VideoDecoderPipe \<Rightarrow> VideoDecoderPipe" where
  "reset s =
     (case translator s of
        None \<Rightarrow>
          (let s1 = s\<lparr>decoder := decoder_reset (decoder s), needsKeyFrame := True\<rparr>
           in case this_config s1 of
                Some cfg \<Rightarrow> s1\<lparr>decoder := decoder_configure (decoder s1) cfg\<rparr>
              | None \<Rightarrow> s1)
      | Some t \<Rightarrow>
          (case this_config s of
             Some cfg \<Rightarrow> s\<lparr>translator := Some (translator_setBaseConfig t cfg)\<rparr>
           | None \<Rightarrow> s))"

text \<open>
  \<^verbatim>\<open>submitDecodeUnit\<close> from the point where the buffered units have been drained: the
  translation and the decode request.
\<close>

definition submitToDecoder ::
  "VideoDecoderPipe \<Rightarrow> VideoDecodeUnit \<Rightarrow> (exn + unit) \<times> VideoDecoderPipe" where
  "submitToDecoder s unit =
     (case translator s of
        Some t \<Rightarrow>
          (case translator_submitDecodeUnit t unit of
             (Inl e, t1) \<Rightarrow> (Inl e, s\<lparr>translator := Some t1\<rparr>)
           | (Inr TranslateError, t1) \<Rightarrow> (Inr (), s\<lparr>translator := Some t1, errored := True\<rparr>)
           | (Inr (Translated configure chunk), t1) \<Rightarrow>
               (let s1 = s\<lparr>translator := Some t1\<rparr> in
                case chunk of
                  None \<Rightarrow> (Inr (), s1)
                | Some chunk \<Rightarrow>
                    (let s2 = (case configure of
                                 Some cfg \<Rightarrow>
                                   s1\<lparr>decoder := decoder_configure (decoder_reset (decoder s1)) cfg,
                                      requestedIdr := False\<rparr>
                               | None \<Rightarrow> s1);
                         encodedChunk = EncodedVideoChunk (type unit) (timestampMicroseconds unit)
                                          (durationMicroseconds unit) chunk
                     in (Inr (), s2\<lparr>decoder := decoder_decode (decoder s2) encodedChunk\<rparr>))))
      | None \<Rightarrow>
          if type unit \<noteq> Key \<and> needsKeyFrame s then (Inr (), s)
          else
            (let s1 = s\<lparr>needsKeyFrame := False, requestedIdr := False\<rparr>;
                 chunk = EncodedVideoChunk (type unit) (timestampMicroseconds unit)
                           (durationMicroseconds unit) (data unit)
             in (Inr (), s1\<lparr>decoder := decoder_decode (decoder s1) chunk\<rparr>)))"

text \<open>
  The recursive call of \<^verbatim>\<open>submitDecodeUnit\<close> on a buffered unit: setup has finished and
  \<^verbatim>\<open>splice(0)\<close> has emptied \<open>bufferedUnits\<close>, so the call checks \<open>errored\<close> and goes on to
  the translation.
\<close>

definition submitBufferedUnit ::
  "VideoDecoderPipe \<Rightarrow> VideoDecodeUnit \<Rightarrow> (exn + unit) \<times> VideoDecoderPipe" where
  "submitBufferedUnit s unit = (if errored s then (Inr (), s) else submitToDecoder s unit)"

fun submitBufferedUnits ::
  "VideoDecoderPipe \<Rightarrow> VideoDecodeUnit list \<Rightarrow> (exn + unit) \<times> VideoDecoderPipe" where
  "submitBufferedUnits s [] = (Inr (), s)"
| "submitBufferedUnits s (u # us) =
     (case submitBufferedUnit s u of
        (Inl e, s1) \<Rightarrow> (Inl e, s1)
      | (Inr _, s1) \<Rightarrow> submitBufferedUnits s1 us)"

definition VideoDecoderPipe_submitDecodeUnit ::
  "VideoDecoderPipe \<Rightarrow> VideoDecodeUnit \<Rightarrow> (exn + unit) \<times> VideoDecoderPipe" where
  "VideoDecoderPipe_submitDecodeUnit s unit =
     (if errored s then (Inr (), s)
      else if \<not> decoderSetupFinished s then (Inr (), s\<lparr>bufferedUnits := bufferedUnits s @ [unit]\<rparr>)
      else
        case (if length (bufferedUnits s) > 0
              then submitBufferedUnits (s\<lparr>bufferedUnits := []\<rparr>) (bufferedUnits s)
              else (Inr (), s)) of
          (Inl e, s1) \<Rightarrow> (Inl e, s1)
        | (Inr _, s1) \<Rightarrow> submitToDecoder s1 unit)"

text \<open>
  \<^verbatim>\<open>pollRequestIdr\<close>. The second argument is what the base pipe's own \<^verbatim>\<open>pollRequestIdr\<close>
  returns in this call, or \<open>None\<close> when the base pipe has no such method. The quotient
  \<^verbatim>\<open>decodeQueueSize * 1000 / fps\<close> at \<open>fps = 0\<close> is \<^verbatim>\<open>Infinity\<close> for a non-empty queue and
  \<^verbatim>\<open>NaN\<close>, which exceeds nothing, for an empty one.
\<close>

definition queueDelayExceeds :: "nat \<Rightarrow> number \<Rightarrow> number \<Rightarrow> bool" where
  "queueDelayExceeds queueSize framesPerSecond ms =
     (if framesPerSecond = 0 then 0 < queueSize
      else of_nat queueSize * 1000 / framesPerSecond > ms)"

definition pollRequestIdr :: "VideoDecoderPipe \<Rightarrow> bool option \<Rightarrow> bool \<times> VideoDecoderPipe" where
  "pollRequestIdr s basePollRequestIdr =
     (let (requestIdr1, s1) =
            (if queueDelayExceeds (decodeQueueSize (decoder s)) (fps s) 200
                \<and> decodeQueueSize (decoder s) > 2
             then (if \<not> requestedIdr s then (True, reset s) else (False, s))
             else (False, s));
          requestIdr2 = (case basePollRequestIdr of
                           Some r \<Rightarrow> (if r then True else requestIdr1)
                         | None \<Rightarrow> requestIdr1);
          s2 = (if requestIdr2 then s1\<lparr>requestedIdr := True\<rparr> else s1)
      in (requestIdr2, s2))"

section \<open>Fragmented-MP4 emitter (video/media_source_decoder.ts)\<close>

text \<open>
  A callback \<^verbatim>\<open>write: () => void\<close> is a closure over the buffer; it is modelled as a
  function from the buffer before its writes to the buffer after them or the exception
  it threw.
\<close>

definition putBox ::
  "'a ByteBuffer_scheme \<Rightarrow> string \<Rightarrow> ('a ByteBuffer_scheme \<Rightarrow> exn + 'a ByteBuffer_scheme) \<Rightarrow>
   exn + 'a ByteBuffer_scheme" where
  "putBox b ty write =
     (let payloadLenPosition = getPosition b in
      and_then (putU32 b 0 None) (\<lambda>b1.
        if length ty \<noteq> 4 then Inl (Throw ''invalid box type length!'')
        else
          and_then (putUtf8Raw b1 ty) (\<lambda>b2.
          and_then (write b2) (\<lambda>b3.
            putU32 b3 (of_nat (getPosition b3) - of_nat payloadLenPosition)
              (Some payloadLenPosition)))))"

definition putFullBox ::
  "'a ByteBuffer_scheme \<Rightarrow> string \<Rightarrow> int \<Rightarrow> int \<Rightarrow>
   ('a ByteBuffer_scheme \<Rightarrow> exn + 'a ByteBuffer_scheme) \<Rightarrow> exn + 'a ByteBuffer_scheme" where
  "putFullBox b ty version flags write =
     (if version < 0 \<or> version > 0xff then Inl (Throw ''FullBox version must be 0-255'')
      else if flags < 0 \<or> flags > 0xffffff then Inl (Throw ''FullBox flags must be 0-0xFFFFFF'')
      else
        putBox b ty
          (seq [\<lambda>b. putU8 b (of_int version) None,
                \<lambda>b. putU8 b (of_int (drop_bit 16 flags AND 0xff)) None,
                \<lambda>b. putU8 b (of_int (drop_bit 8 flags AND 0xff)) None,
                \<lambda>b. putU8 b (of_int (flags AND 0xff)) None,
                write]))"

text \<open>\<^verbatim>\<open>x << n\<close>: a shift of the 32-bit value of \<open>x\<close>, read back as a signed integer.\<close>

definition shl32 :: "int \<Rightarrow> nat \<Rightarrow> int" where
  "shl32 x n = sint (push_bit n (word_of_int x :: 32 word))"

definition putMoovBox ::
  "'a ByteBuffer_scheme \<Rightarrow> ('a ByteBuffer_scheme \<Rightarrow> exn + 'a ByteBuffer_scheme) \<Rightarrow> exn + 'a ByteBuffer_scheme" where
  "putMoovBox b writeBoxes = putBox b ''moov'' writeBoxes"

definition putTrakBox ::
  "'a ByteBuffer_scheme \<Rightarrow> ('a ByteBuffer_scheme \<Rightarrow> exn + 'a ByteBuffer_scheme) \<Rightarrow> exn + 'a ByteBuffer_scheme" where
  "putTrakBox b writeBoxes = putBox b ''trak'' writeBoxes"

definition putTkhdBox ::
  "'a ByteBuffer_scheme \<Rightarrow> int \<Rightarrow> int \<Rightarrow> number \<Rightarrow> number \<Rightarrow> number \<Rightarrow> number \<Rightarrow> number \<Rightarrow>
   number list \<Rightarrow> number \<Rightarrow> number \<Rightarrow> number \<Rightarrow> number \<Rightarrow> number list \<Rightarrow> int \<Rightarrow> int \<Rightarrow>
   exn + 'a ByteBuffer_scheme" where
  "putTkhdBox b version flags creation_time modification_time track_ID reserved1 duration
     reserved2 layer alternate_group volume reserved3 matrix width height =
     putFullBox b ''tkhd'' version flags
       (seq [if version = 1
             then seq [\<lambda>b. putU64 b creation_time None,
                       \<lambda>b. putU64 b modification_time None,
                       \<lambda>b. putU32 b track_ID None,
                       \<lambda>b. putU32 b reserved1 None,
                       \<lambda>b. putU64 b duration None]
             else seq [\<lambda>b. putU32 b creation_time None,
                       \<lambda>b. putU32 b modification_time None,
                       \<lambda>b. putU32 b track_ID None,
                       \<lambda>b. putU32 b reserved1 None,
                       \<lambda>b. putU32 b duration None],
             \<lambda>b. if length reserved2 \<noteq> 2 then Inl (Throw ''invalid reserved2 length'')
                  else putU32Array b (map ToUint32 reserved2) None,
             \<lambda>b. putU16 b layer None,
             \<lambda>b. putU16 b alternate_group None,
             \<lambda>b. putU16 b volume None,
             \<lambda>b. putU16 b reserved3 None,
             \<lambda>b. if length matrix \<noteq> 9 then Inl (Throw ''invalid matrix length'')
                  else putU32Array b (map ToUint32 matrix) None,
             \<lambda>b. putU32 b (of_int (shl32 width 16)) None,
             \<lambda>b. putU32 b (of_int (shl32 height 16)) None])"

definition putMdiaBox ::
  "'a ByteBuffer_scheme \<Rightarrow> ('a ByteBuffer_scheme \<Rightarrow> exn + 'a ByteBuffer_scheme) \<Rightarrow> exn + 'a ByteBuffer_scheme" where
  "putMdiaBox b writeBoxes = putBox b ''mdia'' writeBoxes"

definition putMdhdBox ::
  "'a ByteBuffer_scheme \<Rightarrow> int \<Rightarrow> number \<Rightarrow> number \<Rightarrow> number \<Rightarrow> number \<Rightarrow> bool \<Rightarrow> string \<Rightarrow>
   number \<Rightarrow> exn + 'a ByteBuffer_scheme" where
  "putMdhdBox b version creation_time modification_time timescale duration pad language pre_defined =
     putFullBox b ''mdhd'' version 0
       (seq [if version = 1
             then seq [\<lambda>b. putU64 b creation_time None,
                       \<lambda>b. putU64 b modification_time None,
                       \<lambda>b. putU32 b timescale None,
                       \<lambda>b. putU64 b duration None]
             else seq [\<lambda>b. putU32 b creation_time None,
                       \<lambda>b. putU32 b modification_time None,
                       \<lambda>b. putU32 b timescale None,
                       \<lambda>b. putU32 b duration None],
             \<lambda>b. if \<not> (length language = 3
                        \<and> list_all (\<lambda>c. (97::nat) \<le> of_char c \<and> of_char c \<le> (122::nat)) language)
                  then Inl (Throw ''invalid language (must be 3 lowercase ISO-639 letters)'')
                  else
                    let languageBits =
                          push_bit 15 (if pad then 1 else 0 :: int)
                          OR push_bit 10 (of_char (language ! 0) - 0x60)
                          OR push_bit 5 (of_char (language ! 1) - 0x60)
                          OR (of_char (language ! 2) - 0x60)
                    in putU16 b (of_int languageBits) None,
             \<lambda>b. putU16 b pre_defined None])"

definition putHdlrBox ::
  "'a ByteBuffer_scheme \<Rightarrow> string \<Rightarrow> number list \<Rightarrow> string \<Rightarrow> exn + 'a ByteBuffer_scheme" where
  "putHdlrBox b handler_type reserved name =
     putFullBox b ''hdlr'' 0 0
       (seq [\<lambda>b. putU32 b 0 None,
             \<lambda>b. if length handler_type \<noteq> 4 then Inl (Throw ''invalid handler_type length'')
                  else putUtf8Raw b handler_type,
             \<lambda>b. if length reserved \<noteq> 3 then Inl (Throw ''invalid reserved length'')
                  else putU32Array b (map ToUint32 reserved) None,
             \<lambda>b. putUtf8Raw b name,
             \<lambda>b. putU8 b 0 None])"

definition putMinfBox ::
  "'a ByteBuffer_scheme \<Rightarrow> ('a ByteBuffer_scheme \<Rightarrow> exn + 'a ByteBuffer_scheme) \<Rightarrow> exn + 'a ByteBuffer_scheme" where
  "putMinfBox b writeBoxes = putBox b ''minf'' writeBoxes"

definition putVmhdBox ::
  "'a ByteBuffer_scheme \<Rightarrow> number \<Rightarrow> number list \<Rightarrow> exn + 'a ByteBuffer_scheme" where
  "putVmhdBox b graphicsmode opcolor =
     putFullBox b ''vmhd'' 0 1
       (seq [\<lambda>b. putU16 b graphicsmode None,
             \<lambda>b. if length opcolor \<noteq> 3 then Inl (Throw ''invalid opcolor length'')
                  else putU16Array b (map ToUint16 opcolor) None])"

definition putDinfBox ::
  "'a ByteBuffer_scheme \<Rightarrow> ('a ByteBuffer_scheme \<Rightarrow> exn + 'a ByteBuffer_scheme) \<Rightarrow> exn + 'a ByteBuffer_scheme" where
  "putDinfBox b writeBoxes = putBox b ''dinf'' writeBoxes"

definition putDrefBox ::
  "'a ByteBuffer_scheme \<Rightarrow> number \<Rightarrow> ('a ByteBuffer_scheme \<Rightarrow> exn + 'a ByteBuffer_scheme) \<Rightarrow>
   exn + 'a ByteBuffer_scheme" where
  "putDrefBox b entry_count writeBoxes =
     putFullBox b ''dref'' 0 0 (seq [\<lambda>b. putU32 b entry_count None, writeBoxes])"

definition putUrlBox :: "'a ByteBuffer_scheme \<Rightarrow> exn + 'a ByteBuffer_scheme" where
  "putUrlBox b = putFullBox b ''url '' 0 1 (seq [])"

definition putStblBox ::
  "'a ByteBuffer_scheme \<Rightarrow> ('a ByteBuffer_scheme \<Rightarrow> exn + 'a ByteBuffer_scheme) \<Rightarrow> exn + 'a ByteBuffer_scheme" where
  "putStblBox b writeBoxes = putBox b ''stbl'' writeBoxes"

definition putStsdBox ::
  "'a ByteBuffer_scheme \<Rightarrow> number \<Rightarrow> ('a ByteBuffer_scheme \<Rightarrow> exn + 'a ByteBuffer_scheme) \<Rightarrow>
   exn + 'a ByteBuffer_scheme" where
  "putStsdBox b entry_count writeBoxes =
     putFullBox b ''stsd'' 0 0 (seq [\<lambda>b. putU32 b entry_count None, writeBoxes])"

definition putAvc1Box ::
  "'a ByteBuffer_scheme \<Rightarrow> number list \<Rightarrow> number \<Rightarrow> number \<Rightarrow> number \<Rightarrow> number list \<Rightarrow> int \<Rightarrow> int \<Rightarrow>
   number \<Rightarrow> number \<Rightarrow> number \<Rightarrow> number \<Rightarrow> number list \<Rightarrow> number \<Rightarrow> number \<Rightarrow>
   ('a ByteBuffer_scheme \<Rightarrow> exn + 'a ByteBuffer_scheme) \<Rightarrow> exn + 'a ByteBuffer_scheme" where
  "putAvc1Box b reserved data_reference_index pre_defined reserved2 pre_defined2 width height
     horizresolution vertresolution reserved3 frame_count compressorname depth pre_defined3
     writeBoxes =
     putBox b ''avc1''
       (seq [\<lambda>b. if length reserved \<noteq> 6 then Inl (Throw ''invalid reserved length'')
                  else putU8Array b (map ToUint8 reserved) None,
             \<lambda>b. putU16 b data_reference_index None,
             \<lambda>b. putU16 b pre_defined None,
             \<lambda>b. putU16 b reserved2 None,
             \<lambda>b. if length pre_defined2 \<noteq> 3 then Inl (Throw ''invalid pre_defined2 length'')
                  else putU32Array b (map ToUint32 pre_defined2) None,
             \<lambda>b. putU16 b (of_int width) None,
             \<lambda>b. putU16 b (of_int height) None,
             \<lambda>b. putU32 b horizresolution None,
             \<lambda>b. putU32 b vertresolution None,
             \<lambda>b. putU32 b reserved3 None,
             \<lambda>b. putU16 b frame_count None,
             \<lambda>b. if length compressorname \<noteq> 32 then Inl (Throw ''invalid compressorname length'')
                  else putU8Array b (map ToUint8 compressorname) None,
             \<lambda>b. putU16 b depth None,
             \<lambda>b. putI16 b pre_defined3 None,
             writeBoxes])"

definition putAvcCBox :: "'a ByteBuffer_scheme \<Rightarrow> byte list \<Rightarrow> exn + 'a ByteBuffer_scheme" where
  "putAvcCBox b avcC = putBox b ''avcC'' (\<lambda>b. putU8Array b avcC None)"

text \<open>A \<^verbatim>\<open>for ... of\<close> loop over table entries writes the fields of each entry in turn.\<close>

definition putSttsBox :: "'a ByteBuffer_scheme \<Rightarrow> (number \<times> number) list \<Rightarrow> exn + 'a ByteBuffer_scheme" where
  "putSttsBox b entries =
     putFullBox b ''stts'' 0 0
       (seq ((\<lambda>b. putU32 b (of_nat (length entries)) None)
             # concat (map (\<lambda>(sample_count, sample_delta).
                              [\<lambda>b. putU32 b sample_count None,
                               \<lambda>b. putU32 b sample_delta None]) entries)))"

definition putStscBox ::
  "'a ByteBuffer_scheme \<Rightarrow> (number \<times> number \<times> number) list \<Rightarrow> exn + 'a ByteBuffer_scheme" where
  "putStscBox b entries =
     putFullBox b ''stsc'' 0 0
       (seq ((\<lambda>b. putU32 b (of_nat (length entries)) None)
             # concat (map (\<lambda>(first_chunk, samples_per_chunk, sample_description_index).
                              [\<lambda>b. putU32 b first_chunk None,
                               \<lambda>b. putU32 b samples_per_chunk None,
                               \<lambda>b. putU32 b sample_description_index None]) entries)))"

definition putStszBox :: "'a ByteBuffer_scheme \<Rightarrow> number \<Rightarrow> number \<Rightarrow> exn + 'a ByteBuffer_scheme" where
  "putStszBox b sample_size sample_count =
     putFullBox b ''stsz'' 0 0
       (seq [\<lambda>b. putU32 b sample_size None, \<lambda>b. putU32 b sample_count None])"

definition putStco :: "'a ByteBuffer_scheme \<Rightarrow> number list \<Rightarrow> exn + 'a ByteBuffer_scheme" where
  "putStco b chunk_offsets =
     putFullBox b ''stco'' 0 0
       (seq ((\<lambda>b. putU32 b (of_nat (length chunk_offsets)) None)
             # map (\<lambda>offset b. putU32 b offset None) chunk_offsets))"

definition putMvhdBox ::
  "'a ByteBuffer_scheme \<Rightarrow> int \<Rightarrow> number \<Rightarrow> number \<Rightarrow> number \<Rightarrow> number \<Rightarrow> number \<Rightarrow> number \<Rightarrow> number \<Rightarrow>
   number list \<Rightarrow> number list \<Rightarrow> number list \<Rightarrow> number \<Rightarrow> exn + 'a ByteBuffer_scheme" where
  "putMvhdBox b version creation_time modification_time timescale duration rate volume reserved1
     reserved2 matrix pre_defined next_track_ID =
     putFullBox b ''mvhd'' version 0
       (seq [if version = 0
             then seq [\<lambda>b. putU32 b creation_time None,
                       \<lambda>b. putU32 b modification_time None,
                       \<lambda>b. putU32 b timescale None,
                       \<lambda>b. putU32 b duration None]
             else if version = 1
             then seq [\<lambda>b. putU64 b creation_time None,
                       \<lambda>b. putU64 b modification_time None,
                       \<lambda>b. putU32 b timescale None,
                       \<lambda>b. putU64 b duration None]
             else (\<lambda>b. Inl (Throw ''invalid mvhd version'')),
             \<lambda>b. putI32 b rate None,
             \<lambda>b. putI16 b volume None,
             \<lambda>b. putI16 b reserved1 None,
             \<lambda>b. if length reserved2 \<noteq> 2 then Inl (Throw ''invalid reserved2 length'')
                  else putU32Array b (map ToUint32 reserved2) None,
             \<lambda>b. if length matrix \<noteq> 9 then Inl (Throw ''invalid matrix length'')
                  else putU32Array b (map ToUint32 matrix) None,
             \<lambda>b. if length pre_defined \<noteq> 6 then Inl (Throw ''invalid pre_defined length'')
                  else putU32Array b (map ToUint32 pre_defined) None,
             \<lambda>b. putU32 b next_track_ID None])"

definition putMvexBox ::
  "'a ByteBuffer_scheme \<Rightarrow> ('a ByteBuffer_scheme \<Rightarrow> exn + 'a ByteBuffer_scheme) \<Rightarrow> exn + 'a ByteBuffer_scheme" where
  "putMvexBox b writeBoxes = putBox b ''mvex'' writeBoxes"

definition putTrexBox ::
  "'a ByteBuffer_scheme \<Rightarrow> number \<Rightarrow> number \<Rightarrow> number \<Rightarrow> number \<Rightarrow> number \<Rightarrow> exn + 'a ByteBuffer_scheme" where
  "putTrexBox b track_ID default_sample_description_index default_sample_duration
     default_sample_size default_sample_flags =
     putFullBox b ''trex'' 0 0
       (seq [\<lambda>b. putU32 b track_ID None,
             \<lambda>b. putU32 b default_sample_description_index None,
             \<lambda>b. putU32 b default_sample_duration None,
             \<lambda>b. putU32 b default_sample_size None,
             \<lambda>b. putU32 b default_sample_flags None])"

definition putFTypeBox ::
  "'a ByteBuffer_scheme \<Rightarrow> string \<Rightarrow> number \<Rightarrow> string list \<Rightarrow> exn + 'a ByteBuffer_scheme" where
  "putFTypeBox b major_brand minor_version compatible_brands =
     putBox b ''ftyp''
       (seq ([\<lambda>b. putUtf8Raw b major_brand,
              \<lambda>b. putU32 b minor_version None]
             @ map (\<lambda>brand b. if length brand \<noteq> 4 then Inl (Throw ''invalid brand length!'')
                               else putUtf8Raw b brand) compatible_brands))"

definition putMfhdBox :: "'a ByteBuffer_scheme \<Rightarrow> number \<Rightarrow> exn + 'a ByteBuffer_scheme" where
  "putMfhdBox b sequenceNumber =
     putFullBox b ''mfhd'' 0 0 (\<lambda>b. putU32 b sequenceNumber None)"

definition putTfhdBox :: "'a ByteBuffer_scheme \<Rightarrow> number \<Rightarrow> exn + 'a ByteBuffer_scheme" where
  "putTfhdBox b trackId =
     putFullBox b ''tfhd'' 0 0x020000 (\<lambda>b. putU32 b trackId None)"

definition putTfdtBox :: "'a ByteBuffer_scheme \<Rightarrow> int \<Rightarrow> number \<Rightarrow> exn + 'a ByteBuffer_scheme" where
  "putTfdtBox b version baseDecodeTime =
     putFullBox b ''tfdt'' version 0
       (\<lambda>b. if version = 1 then putU64 b baseDecodeTime None
             else if version = 0 then putU32 b baseDecodeTime None
             else Inl (Throw ''invalid version for tfdt''))"

text \<open>
  The local variable \<^verbatim>\<open>dataOffsetPosition\<close> of \<^verbatim>\<open>putVideoFrameSegment\<close> is assigned
  inside the closures that write the boxes. It travels with the buffer, as an extra
  field; \<^verbatim>\<open>info.dataOffsetPosition\<close> of \<^verbatim>\<open>putTrunBox\<close>, which is copied into it as soon
  as \<^verbatim>\<open>putTrunBox\<close> returns, is the same field.
\<close>

record FrameSegmentBuffer = ByteBuffer +
  dataOffsetPosition :: int

definition putTrunBox ::
  "FrameSegmentBuffer \<Rightarrow> number \<Rightarrow> number \<Rightarrow> bool \<Rightarrow> bool \<Rightarrow> exn + FrameSegmentBuffer" where
  "putTrunBox b frameDuration frameSize isKeyframe isFirstSample =
     (let trunFlags0 = 0x000001 OR 0x000100 OR 0x000200 :: int;
          trunFlags = (if isFirstSample then trunFlags0 OR 0x000004 else trunFlags0 OR 0x000400);
          sampleFlags = (if isKeyframe then 0x02000000 else 0x01010000 :: number)
      in putFullBox (b\<lparr>dataOffsetPosition := 0\<rparr>) ''trun'' 0 trunFlags
           (seq [\<lambda>b. putU32 b 1 None,
                 \<lambda>b. Inr (b\<lparr>dataOffsetPosition := int (getPosition b)\<rparr>),
                 \<lambda>b. putI32 b 0 None,
                 \<lambda>b. if isFirstSample then putU32 b sampleFlags None else Inr b,
                 \<lambda>b. putU32 b frameDuration None,
                 \<lambda>b. putU32 b frameSize None,
                 \<lambda>b. if \<not> isFirstSample then putU32 b sampleFlags None else Inr b]))"

definition putTrafBox ::
  "'a ByteBuffer_scheme \<Rightarrow> ('a ByteBuffer_scheme \<Rightarrow> exn + 'a ByteBuffer_scheme) \<Rightarrow> exn + 'a ByteBuffer_scheme" where
  "putTrafBox b writeBoxes = putBox b ''traf'' writeBoxes"

definition putMoofBox ::
  "'a ByteBuffer_scheme \<Rightarrow> ('a ByteBuffer_scheme \<Rightarrow> exn + 'a ByteBuffer_scheme) \<Rightarrow> exn + 'a ByteBuffer_scheme" where
  "putMoofBox b writeBoxes = putBox b ''moof'' writeBoxes"

definition putMdatBox :: "'a ByteBuffer_scheme \<Rightarrow> byte list \<Rightarrow> exn + 'a ByteBuffer_scheme" where
  "putMdatBox b frame = putBox b ''mdat'' (\<lambda>b. putU8Array b frame None)"

definition MATRIX :: "number list" where
  "MATRIX = [0x00010000, 0, 0,
             0, 0x00010000, 0,
             0, 0, 0x40000000]"

definition putVideoInitSegment ::
  "'a ByteBuffer_scheme \<Rightarrow> number \<Rightarrow> number \<Rightarrow> int \<Rightarrow> int \<Rightarrow> byte list \<Rightarrow> exn + 'a ByteBuffer_scheme" where
  "putVideoInitSegment b timescale trackId width height avcC =
     seq [\<lambda>b. putFTypeBox b ''isom'' 0x200 [''isom'', ''iso6'', ''avc1'', ''mp41''],
          \<lambda>b. putMoovBox b
            (seq [\<lambda>b. putMvhdBox b 0 0 0 timescale 0 0x00010000 0x0100 0 [0, 0] MATRIX
                         [0, 0, 0, 0, 0, 0] (trackId + 1),
                  \<lambda>b. putTrakBox b
                    (seq [\<lambda>b. putTkhdBox b 0 0x000003 0 0 trackId 0 0 [0, 0] 0 0 0 0 MATRIX
                                 width height,
                          \<lambda>b. putMdiaBox b
                            (seq [\<lambda>b. putMdhdBox b 0 0 0 timescale 0 False ''und'' 0,
                                  \<lambda>b. putHdlrBox b ''vide'' [0, 0, 0] ''VideoHandler'',
                                  \<lambda>b. putMinfBox b
                                    (seq [\<lambda>b. putVmhdBox b 0 [0, 0, 0],
                                          \<lambda>b. putDinfBox b
                                            (\<lambda>b. putDrefBox b 1 (\<lambda>b. putUrlBox b)),
                                          \<lambda>b. putStblBox b
                                            (seq [\<lambda>b. putStsdBox b 1
                                                    (\<lambda>b. putAvc1Box b [0, 0, 0, 0, 0, 0] 1 0 0
                                                            [0, 0, 0] width height
                                                            0x00480000 0x00480000 0 1
                                                            (replicate 32 0) 24 (- 1)
                                                            (\<lambda>b. putAvcCBox b avcC)),
                                                  \<lambda>b. putSttsBox b [],
                                                  \<lambda>b. putStscBox b [],
                                                  \<lambda>b. putStszBox b 0 0,
                                                  \<lambda>b. putStco b []])])])]),
                  \<lambda>b. putMvexBox b (\<lambda>b. putTrexBox b trackId 1 0 0 0)])] b"

definition putVideoFrameSegment ::
  "ByteBuffer \<Rightarrow> number \<Rightarrow> number \<Rightarrow> number \<Rightarrow> number \<Rightarrow> bool \<Rightarrow> byte list \<Rightarrow> exn + ByteBuffer" where
  "putVideoFrameSegment b0 trackId sequenceNumber baseDecodeTime frameDuration isKeyframe frame =
     (if isKeyframe \<and> h264NalType (u8_at frame 4) \<noteq> 5
      then Inl (Throw ''tried to submit non idr as a keyframe'')
      else
        let moofPosition = getPosition b0;
            b = ByteBuffer.extend b0 \<lparr>dataOffsetPosition = - 1\<rparr>
        in and_then
             (putMoofBox b
                (seq [\<lambda>b. putMfhdBox b sequenceNumber,
                      \<lambda>b. putTrafBox b
                        (seq [\<lambda>b. putTfhdBox b trackId,
                              \<lambda>b. putTfdtBox b 1 baseDecodeTime,
                              \<lambda>b. putTrunBox b frameDuration (of_nat (length frame)) isKeyframe
                                     (sequenceNumber = 1)])]))
             (\<lambda>b1.
                let dataStart = getPosition b1 in
                and_then
                  (if dataOffsetPosition b1 < 0 then Inl RangeError
                   else putI32 b1 (of_nat dataStart - of_nat moofPosition + 8)
                          (Some (nat (dataOffsetPosition b1))))
                  (\<lambda>b2. and_then (putMdatBox b2 frame)
                           (\<lambda>b3. Inr (ByteBuffer.truncate b3)))))"

section \<open>Media source decoder (video/media_source_decoder.ts)\<close>

text \<open>
  The platform's \<^verbatim>\<open>SourceBuffer\<close>: its \<^verbatim>\<open>updating\<close> flag and the segments appended to
  it so far. \<^verbatim>\<open>appendBuffer\<close> sets the flag; the platform clears it before it fires
  \<^verbatim>\<open>updateend\<close>. The calls into the platform are taken to succeed.
\<close>

record SourceBuffer =
  mimeType :: string
  updating :: bool
  appended :: "byte list list"

definition appendBuffer :: "SourceBuffer \<Rightarrow> byte list \<Rightarrow> SourceBuffer" where
  "appendBuffer sb unit = sb\<lparr>updating := True, appended := appended sb @ [unit]\<rparr>"

record VideoRendererSetup =
  width :: int
  height :: int
  fps :: number

record MediaSourceDecoder =
  errored :: bool
  translator :: H264StreamVideoTranslator
  videoSize :: "(int \<times> int) option"
  sequenceNumber :: number
  sourceBuffer :: "SourceBuffer option"
  expectedDurationMicroseconds :: number
  buffers :: "byte list list"
  needIdr :: bool
  droppedFrames :: nat
  timestampMicrosecondsShift :: number
  lastTimestampMicroseconds :: number

definition MediaSourceDecoder_new :: MediaSourceDecoder where
  "MediaSourceDecoder_new =
     \<lparr>errored = False, translator = H264StreamVideoTranslator_new, videoSize = None,
      sequenceNumber = - 1, sourceBuffer = None, expectedDurationMicroseconds = 0,
      buffers = [], needIdr = True, droppedFrames = 0,
      timestampMicrosecondsShift = 0, lastTimestampMicroseconds = 0\<rparr>"

text \<open>\<^verbatim>\<open>setup\<close>, for a frame rate other than 0 (the quotient is a finite number).\<close>

definition MediaSourceDecoder_setup :: "MediaSourceDecoder \<Rightarrow> VideoRendererSetup \<Rightarrow> MediaSourceDecoder" where
  "MediaSourceDecoder_setup s setup =
     s\<lparr>videoSize := Some (width setup, height setup),
       expectedDurationMicroseconds := js_div 1000000 (fps setup)\<rparr>"

definition createNewSourceBuffer :: "MediaSourceDecoder \<Rightarrow> string \<Rightarrow> MediaSourceDecoder" where
  "createNewSourceBuffer s cdc =
     (let s1 = (if sourceBuffer s \<noteq> None then s\<lparr>sourceBuffer := None\<rparr> else s)
      in s1\<lparr>sourceBuffer :=
              Some \<lparr>mimeType = ''video/mp4; codecs='' @ cdc, updating = False, appended = []\<rparr>\<rparr>)"

function tryAppendDecodeUnit :: "MediaSourceDecoder \<Rightarrow> MediaSourceDecoder" where
  "tryAppendDecodeUnit s =
     (if errored s then s
      else case sourceBuffer s of
             None \<Rightarrow> s
           | Some sb \<Rightarrow>
               if updating sb then s
               else if length (buffers s) = 0 then s
               else tryAppendDecodeUnit
                      (s\<lparr>buffers := tl (buffers s),
                         sourceBuffer := Some (appendBuffer sb (hd (buffers s)))\<rparr>))"
  by pat_completeness auto
termination
  by (relation "measure (\<lambda>s. length (buffers s))") auto

declare tryAppendDecodeUnit.simps [simp del]

definition onUpdateEnd :: "MediaSourceDecoder \<Rightarrow> MediaSourceDecoder" where
  "onUpdateEnd s = tryAppendDecodeUnit s"

definition MediaSourceDecoder_submitDecodeUnit ::
  "MediaSourceDecoder \<Rightarrow> VideoDecodeUnit \<Rightarrow> (exn + unit) \<times> MediaSourceDecoder" where
  "MediaSourceDecoder_submitDecodeUnit s unit =
     (if errored s then (Inr (), s)
      else
        case h264_submitDecodeUnit (translator s) unit of
          (Inl e, t) \<Rightarrow> (Inl e, s\<lparr>translator := t\<rparr>)
        | (Inr TranslateError, t) \<Rightarrow> (Inr (), s\<lparr>translator := t, errored := True\<rparr>)
        | (Inr (Translated configure chunk), t) \<Rightarrow>
            (let s1 = s\<lparr>translator := t\<rparr> in
             case chunk of
               None \<Rightarrow> (Inr (), s1)
             | Some chunk \<Rightarrow>
                 (let shifted = js_sub (timestampMicroseconds unit) (timestampMicrosecondsShift s1);
                      timestamp =
                        (if shifted \<le> lastTimestampMicroseconds s1
                         then js_add (lastTimestampMicroseconds s1) (expectedDurationMicroseconds s1)
                         else shifted);
                      durationMicroseconds = js_sub timestamp (lastTimestampMicroseconds s1);
                      s2 = s1\<lparr>lastTimestampMicroseconds := timestamp\<rparr>
                  in case configure of
                       Some cfg \<Rightarrow>
                         (case description cfg of
                            None \<Rightarrow> (Inr (), s2\<lparr>errored := True\<rparr>)
                          | Some desc \<Rightarrow>
                              (let s3 = createNewSourceBuffer s2 (codec cfg) in
                               case videoSize s3 of
                                 None \<Rightarrow> (Inr (), s3\<lparr>errored := True\<rparr>)
                               | Some (w, h) \<Rightarrow>
                                   (let s4 = s3\<lparr>timestampMicrosecondsShift := timestampMicroseconds unit,
                                                lastTimestampMicroseconds := 0,
                                                sequenceNumber := 1\<rparr>
                                    in case putVideoInitSegment (ByteBuffer_new 2000 False)
                                              1000000 1 w h desc of
                                         Inl e \<Rightarrow> (Inl e, s4)
                                       | Inr initSegment \<Rightarrow>
                                           (let s5 = s4\<lparr>buffers := buffers s4
                                                          @ [getRemainingBuffer (flip initSegment)]\<rparr>
                                            in case putVideoFrameSegment
                                                      (ByteBuffer_new (400 + length (data unit)) False)
                                                      1 (sequenceNumber s5) 0 durationMicroseconds
                                                      True chunk of
                                                 Inl e \<Rightarrow> (Inl e, s5)
                                               | Inr idrSegment \<Rightarrow>
                                                   (Inr (),
                                                    tryAppendDecodeUnit
                                                      (s5\<lparr>buffers := buffers s5
                                                            @ [getRemainingBuffer (flip idrSegment)],
                                                          needIdr := False,
                                                          droppedFrames := 0\<rparr>))))))
                     | None \<Rightarrow>
                         if needIdr s2 then (Inr (), s2\<lparr>droppedFrames := droppedFrames s2 + 1\<rparr>)
                         else
                           (let s3 = s2\<lparr>sequenceNumber := js_add (sequenceNumber s2) 1\<rparr>
                            in case putVideoFrameSegment
                                      (ByteBuffer_new (400 + length (data unit)) False)
                                      1 (sequenceNumber s3) timestamp durationMicroseconds
                                      False chunk of
                                 Inl e \<Rightarrow> (Inl e, s3)
                               | Inr segment \<Rightarrow>
                                   (Inr (),
                                    tryAppendDecodeUnit
                                      (s3\<lparr>buffers := buffers s3
                                            @ [getRemainingBuffer (flip segment)]\<rparr>))))))"

text \<open>
  Submitting a list of units one after the other; the caller goes on to the next unit
  only when the call returned.
\<close>

fun MediaSourceDecoder_submitAll ::
  "MediaSourceDecoder \<Rightarrow> VideoDecodeUnit list \<Rightarrow> (exn + unit) \<times> MediaSourceDecoder" where
  "MediaSourceDecoder_submitAll s [] = (Inr (), s)"
| "MediaSourceDecoder_submitAll s (u # us) =
     (case MediaSourceDecoder_submitDecodeUnit s u of
        (Inl e, s1) \<Rightarrow> (Inl e, s1)
      | (Inr _, s1) \<Rightarrow> MediaSourceDecoder_submitAll s1 us)"

text \<open>
  The segments the decoder has handed on, in order: those appended to the current
  source buffer, then those still queued.
\<close>

definition emitted :: "MediaSourceDecoder \<Rightarrow> byte list list" where
  "emitted s = (case sourceBuffer s of None \<Rightarrow> [] | Some sb \<Rightarrow> appended sb) @ buffers s"

text \<open>
  Reading a frame segment back. The segment starts with \<^verbatim>\<open>moof\<close> (8 bytes of header),
  whose first child is \<^verbatim>\<open>mfhd\<close> (header, version and flags, then the sequence number at
  offset 20); \<^verbatim>\<open>traf\<close> starts at 24, its first child \<^verbatim>\<open>tfhd\<close> is 16 bytes long, and
  \<^verbatim>\<open>tfdt\<close> at 48 holds the 64-bit base decode time at offset 60.
\<close>

definition mfhd_sequence_number :: "byte list \<Rightarrow> nat" where
  "mfhd_sequence_number seg = rd32 seg 20"

definition tfdt_base_decode_time :: "byte list \<Rightarrow> nat" where
  "tfdt_base_decode_time seg = rd32 seg 60 * 4294967296 + rd32 seg 64"

section \<open>Video pipeline builder (video/pipeline.ts)\<close>

text \<open>
  The classes the table names. \<^verbatim>\<open>BaseCanvasVideoRenderer\<close> is the class the two canvas
  renderers extend.
\<close>

datatype RendererClass =
  VideoElementRenderer
| MainCanvasRenderer
| OffscreenCanvasRenderer
| BaseCanvasVideoRenderer

datatype PipeStatic =
  VideoMediaStreamTrackProcessorPipe
| CanvasFrameDrawPipe
| WorkerVideoTrackSendPipe
| WorkerVideoMediaStreamProcessorCanvasPipe
| WorkerVideoMediaStreamProcessorPipe
| WorkerVideoFrameReceivePipe
| DepacketizeVideoPipe
| WorkerVideoDataSendPipe
| WorkerDataToVideoTrackPipe
| WorkerVideoTrackReceivePipe
| VideoDecoderPipe
| VideoMediaStreamTrackGeneratorPipe
| WorkerDataToCanvasRenderOpenH264Pipe
| OpenH264DecoderPipe
| Yuv420ToRgbaFramePipe
| CanvasRgbaFrameDrawPipe

text \<open>
  The objects that \<^verbatim>\<open>instanceof\<close> looks at: a class (its constructor function), the
  prototype object of a class, an instance of a class, and the two built-in prototypes
  every chain ends in. \<^verbatim>\<open>class A extends B\<close> links the constructor \<open>A\<close> to the
  constructor \<open>B\<close> and the prototype of \<open>A\<close> to the prototype of \<open>B\<close>.
\<close>

datatype JsObject =
  Constructor RendererClass
| Prototype RendererClass
| Instance RendererClass
| FunctionPrototype
| ObjectPrototype

definition superclass :: "RendererClass \<Rightarrow> RendererClass option" where
  "superclass c =
     (case c of
        MainCanvasRenderer \<Rightarrow> Some BaseCanvasVideoRenderer
      | OffscreenCanvasRenderer \<Rightarrow> Some BaseCanvasVideoRenderer
      | _ \<Rightarrow> None)"

definition getPrototypeOf :: "JsObject \<Rightarrow> JsObject option" where
  "getPrototypeOf v =
     (case v of
        Constructor c \<Rightarrow> (case superclass c of Some p \<Rightarrow> Some (Constructor p) | None \<Rightarrow> Some FunctionPrototype)
      | Prototype c \<Rightarrow> (case superclass c of Some p \<Rightarrow> Some (Prototype p) | None \<Rightarrow> Some ObjectPrototype)
      | Instance c \<Rightarrow> Some (Prototype c)
      | FunctionPrototype \<Rightarrow> Some ObjectPrototype
      | ObjectPrototype \<Rightarrow> None)"

text \<open>
  \<^verbatim>\<open>v instanceof C\<close> walks the prototype chain of \<open>v\<close> and looks for the prototype
  object of \<open>C\<close>. The first argument bounds the number of links followed; no chain of
  these objects has more than four.
\<close>

fun instanceof_upto :: "nat \<Rightarrow> JsObject \<Rightarrow> RendererClass \<Rightarrow> bool" where
  "instanceof_upto 0 v c = False"
| "instanceof_upto (Suc n) v c =
     (case getPrototypeOf v of
        None \<Rightarrow> False
      | Some p \<Rightarrow> p = Prototype c \<or> instanceof_upto n p c)"

definition instanceof :: "JsObject \<Rightarrow> RendererClass \<Rightarrow> bool" where
  "instanceof v c = instanceof_upto 4 v c"

record Pipeline =
  input :: string
  pipes :: "PipeStatic list"
  renderer :: RendererClass

definition PIPELINES :: "Pipeline list" where
  "PIPELINES =
     [\<lparr>input = ''videotrack'', pipes = [], renderer = VideoElementRenderer\<rparr>,
      \<lparr>input = ''videotrack'', pipes = [VideoMediaStreamTrackProcessorPipe, CanvasFrameDrawPipe],
       renderer = MainCanvasRenderer\<rparr>,
      \<lparr>input = ''videotrack'', pipes = [WorkerVideoTrackSendPipe, WorkerVideoMediaStreamProcessorCanvasPipe],
       renderer = OffscreenCanvasRenderer\<rparr>,
      \<lparr>input = ''videotrack'',
       pipes = [WorkerVideoTrackSendPipe, WorkerVideoMediaStreamProcessorPipe, WorkerVideoFrameReceivePipe],
       renderer = MainCanvasRenderer\<rparr>,
      \<lparr>input = ''data'',
       pipes = [DepacketizeVideoPipe, WorkerVideoDataSendPipe, WorkerDataToVideoTrackPipe,
                WorkerVideoTrackReceivePipe],
       renderer = VideoElementRenderer\<rparr>,
      \<lparr>input = ''data'', pipes = [DepacketizeVideoPipe, VideoDecoderPipe, VideoMediaStreamTrackGeneratorPipe],
       renderer = VideoElementRenderer\<rparr>,
      \<lparr>input = ''data'', pipes = [DepacketizeVideoPipe, VideoDecoderPipe, CanvasFrameDrawPipe],
       renderer = MainCanvasRenderer\<rparr>,
      \<lparr>input = ''data'',
       pipes = [DepacketizeVideoPipe, WorkerVideoDataSendPipe, WorkerDataToCanvasRenderOpenH264Pipe],
       renderer = OffscreenCanvasRenderer\<rparr>,
      \<lparr>input = ''data'',
       pipes = [DepacketizeVideoPipe, OpenH264DecoderPipe, Yuv420ToRgbaFramePipe, CanvasRgbaFrameDrawPipe],
       renderer = MainCanvasRenderer\<rparr>]"

text \<open>
  The filter tests \<^verbatim>\<open>pipeline.renderer\<close>, which is the class itself, not an instance of
  it.
\<close>

definition FORCE_CANVAS_PIPELINES :: "Pipeline list" where
  "FORCE_CANVAS_PIPELINES =
     filter (\<lambda>pipeline. instanceof (Constructor (renderer pipeline)) BaseCanvasVideoRenderer) PIPELINES"

text \<open>
  What the builder asks of its surroundings, none of which is in the modelled files: the
  capability answers (\<^verbatim>\<open>gatherPipeInfo\<close>, \<^verbatim>\<open>getInfo\<close>), the operations on codec sets
  (\<^verbatim>\<open>andVideoCodecs\<close>, \<^verbatim>\<open>hasAnyCodec\<close>, the assignment \<^verbatim>\<open>H264 = true\<close>) and the
  construction of a chain (\<^verbatim>\<open>buildPipeline\<close>, \<^verbatim>\<open>new VideoElementRenderer()\<close>). \<open>'c\<close> is
  the type of codec sets and \<open>'r\<close> that of constructed renderers.
\<close>

record 'c PipeInfo =
  environmentSupported :: bool
  supportedVideoCodecs :: "'c option"

record ('c, 'r) Environment =
  pipesInfo :: "PipeStatic \<Rightarrow> 'c PipeInfo option"
  getInfo :: "RendererClass \<Rightarrow> 'c PipeInfo option"
  andVideoCodecs :: "'c \<Rightarrow> 'c \<Rightarrow> 'c"
  hasAnyCodec :: "'c \<Rightarrow> bool"
  setH264 :: "'c \<Rightarrow> 'c"
  buildPipeline :: "RendererClass \<Rightarrow> PipeStatic list \<Rightarrow> bool \<Rightarrow> 'r option"
  newVideoElementRenderer :: 'r

record 'c VideoPipelineOptions =
  settings_supportedVideoCodecs :: 'c
  canvasRenderer :: bool
  forceVideoElementRenderer :: bool
  canvasVsync :: bool

datatype ('c, 'r) PipelineResult =
  Built 'r 'c       \<comment> \<open>\<^verbatim>\<open>{videoRenderer, supportedCodecs, error: false}\<close>\<close>
| BuildFailed       \<comment> \<open>\<^verbatim>\<open>{videoRenderer: null, supportedCodecs: null, error: true}\<close>\<close>

text \<open>
  The inner loop over the pipes of one chain: \<open>None\<close> is \<^verbatim>\<open>continue pipelineLoop\<close>,
  otherwise the codec set narrowed by every pipe.
\<close>

fun checkPipes :: "('c, 'r) Environment \<Rightarrow> PipeStatic list \<Rightarrow> 'c \<Rightarrow> 'c option" where
  "checkPipes env [] supportedCodecs = Some supportedCodecs"
| "checkPipes env (pipe # rest) supportedCodecs =
     (case pipesInfo env pipe of
        None \<Rightarrow> None
      | Some pipeInfo \<Rightarrow>
          if \<not> environmentSupported pipeInfo then None
          else checkPipes env rest
                 (case supportedVideoCodecs pipeInfo of
                    Some c \<Rightarrow> andVideoCodecs env supportedCodecs c
                  | None \<Rightarrow> supportedCodecs))"

fun pipelineLoop ::
  "('c, 'r) Environment \<Rightarrow> string \<Rightarrow> 'c VideoPipelineOptions \<Rightarrow> Pipeline list \<Rightarrow>
   ('c, 'r) PipelineResult" where
  "pipelineLoop env ty settings [] = BuildFailed"
| "pipelineLoop env ty settings (pipeline # rest) =
     (if input pipeline \<noteq> ty then pipelineLoop env ty settings rest
      else
        case checkPipes env (pipes pipeline) (settings_supportedVideoCodecs settings) of
          None \<Rightarrow> pipelineLoop env ty settings rest
        | Some supportedCodecs1 \<Rightarrow>
            (case getInfo env (renderer pipeline) of
               None \<Rightarrow> pipelineLoop env ty settings rest
             | Some rendererInfo \<Rightarrow>
                 if \<not> environmentSupported rendererInfo then pipelineLoop env ty settings rest
                 else
                   let supportedCodecs =
                         (case supportedVideoCodecs rendererInfo of
                            Some c \<Rightarrow> andVideoCodecs env supportedCodecs1 c
                          | None \<Rightarrow> supportedCodecs1)
                   in if \<not> hasAnyCodec env supportedCodecs then pipelineLoop env ty settings rest
                      else
                        (case buildPipeline env (renderer pipeline) (pipes pipeline)
                                (\<not> canvasVsync settings) of
                           None \<Rightarrow> pipelineLoop env ty settings rest
                         | Some videoRenderer \<Rightarrow> Built videoRenderer supportedCodecs)))"

definition buildVideoPipeline ::
  "('c, 'r) Environment \<Rightarrow> string \<Rightarrow> 'c VideoPipelineOptions \<Rightarrow> ('c, 'r) PipelineResult" where
  "buildVideoPipeline env ty settings =
     (if forceVideoElementRenderer settings then
        (if ty \<noteq> ''videotrack'' then BuildFailed
         else
           let codecs = (if \<not> hasAnyCodec env (settings_supportedVideoCodecs settings)
                         then setH264 env (settings_supportedVideoCodecs settings)
                         else settings_supportedVideoCodecs settings)
           in Built (newVideoElementRenderer env) codecs)
      else
        let pipelines = (if canvasRenderer settings then FORCE_CANVAS_PIPELINES else PIPELINES)
        in pipelineLoop env ty settings pipelines)"

text \<open>
  The table "pruned to the chains whose renderer is a canvas renderer", as the
  specification words it: a renderer is a canvas renderer when its class extends
  \<^verbatim>\<open>BaseCanvasVideoRenderer\<close>.
\<close>

definition spec_canvas_pipelines :: "Pipeline list" where
  "spec_canvas_pipelines =
     filter (\<lambda>pipeline. instanceof (Instance (renderer pipeline)) BaseCanvasVideoRenderer) PIPELINES"

section \<open>Notions used in the statements\<close>

text \<open>
  A byte "rendered as exactly two lower-case hexadecimal digits, zero-padded", as the
  specification words the codec string.
\<close>

definition two_hex_digits :: "byte \<Rightarrow> string" where
  "two_hex_digits x = [hex_digit (unat x div 16), hex_digit (unat x mod 16)]"

text \<open>The eight bytes \<^verbatim>\<open>putU64\<close> stores for a number, in the byte order of the buffer.\<close>

definition u64_bytes :: "bool \<Rightarrow> number \<Rightarrow> byte list" where
  "u64_bytes le d =
     (let hi = ToUint32 (of_int \<lfloor>d / 4294967296\<rfloor>);
          lo = ToUint32 (of_nat (unat (ToUint32 d)))
      in if le then bytes32 True lo @ bytes32 True hi else bytes32 False hi @ bytes32 False lo)"

text \<open>A typed array whose first bytes are \<open>pre\<close> and whose other \<open>k\<close> bytes are still zero.\<close>

definition fill :: "byte list \<Rightarrow> nat \<Rightarrow> byte list" where
  "fill pre k = pre @ replicate k 0"

text \<open>
  An environment in which every pipe and every renderer is supported and every chain can
  be built. A codec set is left abstract (the unit type); a constructed renderer is
  represented by the chain it was built from.
\<close>

definition all_supported :: "(unit, RendererClass \<times> PipeStatic list) Environment" where
  "all_supported =
     \<lparr>pipesInfo = (\<lambda>_. Some \<lparr>environmentSupported = True, supportedVideoCodecs = None\<rparr>),
      getInfo = (\<lambda>_. Some \<lparr>environmentSupported = True, supportedVideoCodecs = None\<rparr>),
      andVideoCodecs = (\<lambda>_ _. ()),
      hasAnyCodec = (\<lambda>_. True),
      setH264 = (\<lambda>_. ()),
      buildPipeline = (\<lambda>r ps _. Some (r, ps)),
      newVideoElementRenderer = (VideoElementRenderer, [])\<rparr>"

definition canvas_settings :: "unit VideoPipelineOptions" where
  "canvas_settings =
     \<lparr>settings_supportedVideoCodecs = (), canvasRenderer = True,
      forceVideoElementRenderer = False, canvasVsync = False\<rparr>"


text \<open>
  A buffer as \<^verbatim>\<open>new ByteBuffer(cap, false)\<close> creates it, after writes that have stored
  the bytes \<open>pre\<close> at its start and moved the position behind them; \<open>m\<close> holds the values
  of the local variables that travel with the buffer.
\<close>

definition fresh :: "byte list \<Rightarrow> nat \<Rightarrow> 'a \<Rightarrow> 'a ByteBuffer_scheme" where
  "fresh pre cap m =
     \<lparr>position = length pre, limit = cap, littleEndian = False,
      buffer = fill pre (cap - length pre), \<dots> = m\<rparr>"


text \<open>
  A writer \<open>w\<close> appends exactly the bytes \<open>bs\<close> to such a buffer whenever they fit, and
  changes the local variables by \<open>f\<close>, which is given the position at which \<open>w\<close> started.
\<close>

definition writes ::
  "('a ByteBuffer_scheme \<Rightarrow> exn + 'a ByteBuffer_scheme) \<Rightarrow> byte list \<Rightarrow> (nat \<Rightarrow> 'a \<Rightarrow> 'a) \<Rightarrow> bool" where
  "writes w bs f \<longleftrightarrow>
     (\<forall>pre cap m. length pre + length bs \<le> cap \<longrightarrow>
        w (fresh pre cap m) = Inr (fresh (pre @ bs) cap (f (length pre) m)))"

definition keep :: "nat \<Rightarrow> 'a \<Rightarrow> 'a" where
  "keep p m = m"

text \<open>
  The bytes of an ISO-BMFF box with the given type and payload: the length of the whole
  box in 32 bits big-endian, the type, the payload.
\<close>

definition box :: "string \<Rightarrow> byte list \<Rightarrow> byte list" where
  "box ty payload = be32 (of_nat (8 + length payload)) @ map of_char ty @ payload"


text \<open>
  The bytes of a frame segment of track 1, as \<^verbatim>\<open>putVideoFrameSegment\<close> lays them out:
  \<^verbatim>\<open>moof(mfhd, traf(tfhd, tfdt, trun))\<close>, then \<^verbatim>\<open>mdat\<close>. The \<^verbatim>\<open>tfdt\<close> box has version
  1; its payload is the 64-bit time followed by the eight bytes that \<^verbatim>\<open>putU64\<close> skips.
\<close>

definition trun_payload :: "number \<Rightarrow> number \<Rightarrow> bool \<Rightarrow> nat \<Rightarrow> nat \<Rightarrow> byte list" where
  "trun_payload seqNo frameDuration isKeyframe frameSize dataOffset =
     (let isFirstSample = (seqNo = 1);
          sampleFlags = be32 (if isKeyframe then 0x02000000 else 0x01010000)
      in (if isFirstSample then [0, 0, 3, 5] else [0, 0, 7, 1])
         @ be32 1 @ be32 (of_nat dataOffset)
         @ (if isFirstSample then sampleFlags else [])
         @ be32 (ToUint32 frameDuration) @ be32 (of_nat frameSize)
         @ (if isFirstSample then [] else sampleFlags))"

definition moof_box :: "number \<Rightarrow> number \<Rightarrow> number \<Rightarrow> bool \<Rightarrow> nat \<Rightarrow> nat \<Rightarrow> byte list" where
  "moof_box seqNo baseDecodeTime frameDuration isKeyframe frameSize dataOffset =
     box ''moof''
       (box ''mfhd'' ([0, 0, 0, 0] @ be32 (ToUint32 seqNo))
        @ box ''traf''
            (box ''tfhd'' ([0, 2, 0, 0] @ be32 1)
             @ box ''tfdt'' ([1, 0, 0, 0] @ u64_bytes False baseDecodeTime @ replicate 8 0)
             @ box ''trun'' (trun_payload seqNo frameDuration isKeyframe frameSize dataOffset)))"

definition frame_segment :: "number \<Rightarrow> number \<Rightarrow> number \<Rightarrow> bool \<Rightarrow> byte list \<Rightarrow> byte list" where
  "frame_segment seqNo baseDecodeTime frameDuration isKeyframe frame =
     moof_box seqNo baseDecodeTime frameDuration isKeyframe (length frame) 116
     @ box ''mdat'' frame"

text \<open>
  A unit "carries a reconfigure" for a translator when the translator returns a chunk
  together with a new configuration for it.
\<close>

definition reconfigures :: "Translator \<Rightarrow> VideoDecodeUnit \<Rightarrow> bool" where
  "reconfigures t unit =
     (case fst (translator_submitDecodeUnit t unit) of
        Inr (Translated (Some cfg) (Some c)) \<Rightarrow> True
      | _ \<Rightarrow> False)"

text \<open>
  A pipe after setup at 60 frames per second whose decoder has 20 requests queued, with
  the given translator and the given state of the \<open>requestedIdr\<close> latch.
\<close>

definition backlogged_pipe :: "Translator option \<Rightarrow> bool \<Rightarrow> VideoDecoderPipe" where
  "backlogged_pipe t latch =
     VideoDecoderPipe_new
       \<lparr>VideoDecoderPipe.fps := 60, VideoDecoderPipe.translator := t,
        decoder := \<lparr>decodeQueueSize = 20, calls = []\<rparr>,
        decoderSetupFinished := True, requestedIdr := latch, needsKeyFrame := False\<rparr>"


text \<open>
  The slices that the scan of \<open>submitDecodeUnit\<close> hands to \<open>handleStartCode\<close>, in order:
  the bytes between two start codes, and the bytes after the last one.
\<close>

function nal_slices :: "byte list \<Rightarrow> nat \<Rightarrow> nat \<Rightarrow> byte list list" where
  "nal_slices dat unitBegin pos =
     (if pos < length dat then
        (if startsWith dat pos START_CODE_LONG
         then (if pos \<noteq> 0 then [slice dat unitBegin pos] else [])
              @ nal_slices dat (pos + 4) (pos + 4)
         else if startsWith dat pos START_CODE_SHORT
         then (if pos \<noteq> 0 then [slice dat unitBegin pos] else [])
              @ nal_slices dat (pos + 3) (pos + 3)
         else nal_slices dat unitBegin (pos + 1))
      else [slice dat unitBegin pos])"
  by pat_completeness auto
termination
  by (relation "measure (\<lambda>(dat, ub, pos). length dat - pos)") auto

declare nal_slices.simps [simp del]

text \<open>One call of \<open>handleStartCode\<close> on a slice, unless an earlier call has thrown.\<close>

definition feed ::
  "('a CodecStreamTranslator_scheme \<Rightarrow> byte list \<Rightarrow> (exn + bool) \<times> 'a CodecStreamTranslator_scheme) \<Rightarrow>
   (exn + nat) \<times> 'a CodecStreamTranslator_scheme \<Rightarrow> byte list \<Rightarrow>
   (exn + nat) \<times> 'a CodecStreamTranslator_scheme" where
  "feed onChunkUnit acc slc =
     (case acc of
        (Inl e, s) \<Rightarrow> (Inl e, s)
      | (Inr currentFrameSize, s) \<Rightarrow> handleStartCode onChunkUnit slc 0 (length slc) currentFrameSize s)"

text \<open>
  A NAL unit as it stands between start codes: it is not empty, it does not end with a
  zero byte and no three-byte start code begins inside it.
\<close>

definition nal_ok :: "byte list \<Rightarrow> bool" where
  "nal_ok X \<longleftrightarrow>
     X \<noteq> [] \<and> last X \<noteq> 0 \<and> list_all (\<lambda>i. \<not> startsWith X i START_CODE_SHORT) [0..<length X]"

text \<open>The two start codes of Annex B.\<close>

definition is_start_code :: "byte list \<Rightarrow> bool" where
  "is_start_code c \<longleftrightarrow> c = START_CODE_SHORT \<or> c = START_CODE_LONG"

text \<open>An access unit in Annex-B form: each NAL unit after its start code.\<close>

fun annexb :: "(byte list \<times> byte list) list \<Rightarrow> byte list" where
  "annexb [] = []"
| "annexb ((c, X) # rest) = c @ X @ annexb rest"


text \<open>The \<open>hasDescription\<close> field of a translator of either subclass.\<close>

definition has_description :: "Translator \<Rightarrow> bool" where
  "has_description t =
     (case t of
        H264Translator x \<Rightarrow> H264StreamVideoTranslator.hasDescription x
      | H265Translator x \<Rightarrow> hasDescription x)"

text \<open>No parameter set is pending: \<open>sps\<close>, \<open>pps\<close> and, for H.265, \<open>vps\<close> are null.\<close>

definition no_pending_sets :: "Translator \<Rightarrow> bool" where
  "no_pending_sets t =
     (case t of
        H264Translator x \<Rightarrow>
          H264StreamVideoTranslator.sps x = None \<and> H264StreamVideoTranslator.pps x = None
      | H265Translator x \<Rightarrow> vps x = None \<and> sps x = None \<and> pps x = None)"

text \<open>
  The slices that \<^verbatim>\<open>onChunkUnit\<close> keeps as parameter sets: the NAL types 7 and 8 for
  H.264, and 32, 33 and 34 for H.265.
\<close>

definition is_parameter_set :: "Translator \<Rightarrow> byte list \<Rightarrow> bool" where
  "is_parameter_set t slc =
     (case t of
        H264Translator x \<Rightarrow> h264NalType (u8_at slc 0) = 7 \<or> h264NalType (u8_at slc 0) = 8
      | H265Translator x \<Rightarrow>
          h265NalType (u8_at slc 0) = 32 \<or> h265NalType (u8_at slc 0) = 33
          \<or> h265NalType (u8_at slc 0) = 34)"

text \<open>A unit none of whose slices is a parameter set.\<close>

definition lacks_parameter_sets :: "Translator \<Rightarrow> VideoDecodeUnit \<Rightarrow> bool" where
  "lacks_parameter_sets t unit =
     list_all (\<lambda>slc. \<not> is_parameter_set t slc) (nal_slices (data unit) 0 0)"


text \<open>
  The parameter set of one kind that a translator holds after it has scanned the slices:
  the last slice of that kind, or the set it held before when there is none.
\<close>

definition buffered :: "(byte list \<Rightarrow> bool) \<Rightarrow> byte list option \<Rightarrow> byte list list \<Rightarrow> byte list option" where
  "buffered is_set before slices = foldl (\<lambda>kept slc. if is_set slc then Some slc else kept) before slices"

text \<open>The chunk made of the slices, each after its length as four big-endian bytes.\<close>

definition length_prefixed :: "byte list list \<Rightarrow> byte list" where
  "length_prefixed slices = concat (map (\<lambda>slc. be32 (of_nat (length slc)) @ slc) slices)"

text \<open>
  The bytes that \<^verbatim>\<open>h264MakeAvcC\<close> leaves in its array for an SPS \<open>S\<close> and a PPS \<open>P\<close>,
  the last byte of the array included.
\<close>

definition avcC_record :: "byte list \<Rightarrow> byte list \<Rightarrow> byte list" where
  "avcC_record S P =
     [0x01, u8_at S 1, u8_at S 2, u8_at S 3, 0xFF, 0xE1,
      of_nat (length S div 256), of_nat (length S) AND 0xff] @ S
     @ [0x01, of_nat (length P div 256), of_nat (length P) AND 0xff] @ P @ [0x00]"

text \<open>
  The bytes that \<^verbatim>\<open>h265MakeHvcC\<close> leaves in its array for a VPS \<open>V\<close>, an SPS \<open>S\<close> and
  a PPS \<open>P\<close>.
\<close>

definition hvcC_record :: "byte list \<Rightarrow> byte list \<Rightarrow> byte list \<Rightarrow> byte list" where
  "hvcC_record V S P =
     [1, drop_bit 1 (u8_at S 1) AND 0x3f, 0, 0, 0, 0, 0, 0, 0, 0, 0, 0, u8_at S 12,
      0xF0, 0x00, 0xFC, 0xFD, 0xF8, 0xF8, 0x00, 0x00, 0x0F, 3]
     @ [0x20, 0, 1, of_nat (length V div 256), of_nat (length V) AND 0xff] @ V
     @ [0x21, 0, 1, of_nat (length S div 256), of_nat (length S) AND 0xff] @ S
     @ [0x22, 0, 1, of_nat (length P div 256), of_nat (length P) AND 0xff] @ P"

text \<open>The pending parameter sets of a translator, in the order of its fields.\<close>

definition pending_sets :: "Translator \<Rightarrow> byte list option list" where
  "pending_sets t =
     (case t of
        H264Translator x \<Rightarrow> [H264StreamVideoTranslator.sps x, H264StreamVideoTranslator.pps x]
      | H265Translator x \<Rightarrow> [vps x, sps x, pps x])"

text \<open>
  The parameter sets a translator holds when it has scanned a unit and before
  \<^verbatim>\<open>endChunk\<close> looks at them.
\<close>

definition sets_after_scan :: "Translator \<Rightarrow> VideoDecodeUnit \<Rightarrow> byte list option list" where
  "sets_after_scan t unit =
     (let slices = nal_slices (data unit) 0 0 in
      case t of
        H264Translator x \<Rightarrow>
          [buffered (\<lambda>slc. h264NalType (u8_at slc 0) = 7) (H264StreamVideoTranslator.sps x) slices,
           buffered (\<lambda>slc. h264NalType (u8_at slc 0) = 8) (H264StreamVideoTranslator.pps x) slices]
      | H265Translator x \<Rightarrow>
          [buffered (\<lambda>slc. h265NalType (u8_at slc 0) = 32) (vps x) slices,
           buffered (\<lambda>slc. h265NalType (u8_at slc 0) = 33) (sps x) slices,
           buffered (\<lambda>slc. h265NalType (u8_at slc 0) = 34) (pps x) slices])"

text \<open>
  The description made of a complete group of parameter sets: SPS and PPS for H.264,
  VPS, SPS and PPS for H.265. There is none while a set of the group is missing.
\<close>

fun description_from :: "Translator \<Rightarrow> byte list option list \<Rightarrow> byte list option" where
  "description_from (H264Translator x) [Some S, Some P] = Some (avcC_record S P)"
| "description_from (H265Translator x) [Some V, Some S, Some P] = Some (hvcC_record V S P)"
| "description_from t sets = None"

text \<open>The slices of a unit that are not parameter sets.\<close>

definition included_slices :: "Translator \<Rightarrow> VideoDecodeUnit \<Rightarrow> byte list list" where
  "included_slices t unit = filter (\<lambda>slc. \<not> is_parameter_set t slc) (nal_slices (data unit) 0 0)"

text \<open>
  Every SPS in the unit has the header byte and the three profile bytes that
  \<^verbatim>\<open>h264ParseSps\<close> reads; the H.265 translator parses nothing.
\<close>

definition sps_parses :: "Translator \<Rightarrow> VideoDecodeUnit \<Rightarrow> bool" where
  "sps_parses t unit =
     (case t of
        H264Translator x \<Rightarrow>
          list_all (\<lambda>slc. h264NalType (u8_at slc 0) = 7 \<longrightarrow> 4 \<le> length slc)
            (nal_slices (data unit) 0 0)
      | H265Translator x \<Rightarrow> True)"


section \<open>Basic facts\<close>

lemma and_then_Inr [simp]: "and_then (Inr x) f = f x"
  by (simp add: and_then_def)

lemma and_then_Inl [simp]: "and_then (Inl e) f = Inl e"
  by (simp add: and_then_def)

lemma length_write_at:
  "p + length bs \<le> length buf \<Longrightarrow> length (write_at buf p bs) = length buf"
  by (simp add: write_at_def)

lemma nth_write_at:
  "p + length bs \<le> length buf \<Longrightarrow> i < length buf \<Longrightarrow>
   write_at buf p bs ! i = (if p \<le> i \<and> i < p + length bs then bs ! (i - p) else buf ! i)"
  by (auto simp: write_at_def nth_append min_def)

lemma write_at_adjacent:
  "p + length a + length c \<le> length buf \<Longrightarrow>
   write_at (write_at buf p a) (p + length a) c = write_at buf p (a @ c)"
  by (auto simp: write_at_def ac_simps)

lemma length_be32 [simp]: "length (be32 w) = 4"
  by (simp add: be32_def)

lemma length_bytes32 [simp]: "length (bytes32 le w) = 4"
  by (simp add: bytes32_def)

lemma length_bytes16 [simp]: "length (bytes16 le w) = 2"
  by (simp add: bytes16_def be16_def)

lemma replicate_fill: "replicate n (0::byte) = fill [] n"
  by (simp add: fill_def)

lemma fill_update:
  "length pre = p \<Longrightarrow> 0 < k \<Longrightarrow> (fill pre k)[p := v] = fill (pre @ [v]) (k - 1)"
  by (cases k) (simp_all add: fill_def list_update_append)

lemma fill_write_at:
  "length pre = p \<Longrightarrow> length bs \<le> k \<Longrightarrow>
   write_at (fill pre k) p bs = fill (pre @ bs) (k - length bs)"
  by (simp add: write_at_def fill_def)

lemma length_fill: "length (fill pre k) = length pre + k"
  by (simp add: fill_def)

section \<open>ByteBuffer.putU64\<close>

lemma putU64_result:
  "(position b + 8 \<le> length (buffer b) \<longrightarrow>
      putU64 b d None
        = Inr (b\<lparr>position := position b + 16,
                 limit := max (limit b) (position b + 8),
                 buffer := write_at (buffer b) (position b) (u64_bytes (littleEndian b) d)\<rparr>))
   \<and> (i + 8 \<le> length (buffer b) \<longrightarrow>
      putU64 b d (Some i)
        = Inr (b\<lparr>position := position b + 8,
                 limit := max (limit b) (i + 8),
                 buffer := write_at (buffer b) i (u64_bytes (littleEndian b) d)\<rparr>))
   \<and> (position b + 8 > length (buffer b) \<longrightarrow>
      putU64 b d None = Inl (Throw ''failed to write over the capacity''))"
  by (auto simp: putU64_def useDataView_def bytesUsed_def view_set_def Let_def u64_bytes_def
        max_def write_at_adjacent [where a = "bytes32 x y" for x y, simplified] length_write_at)


text \<open>
  C10. A call of \<^verbatim>\<open>putU64\<close> without index that does not throw stores eight bytes at the
  position and moves the position on by 16: once in \<^verbatim>\<open>useDataView\<close> and once more by
  the call of \<^verbatim>\<open>bytesUsed(8)\<close> at its end. The eight bytes after the value are not
  written, so they are what the array held before (zero in a new buffer), and the next
  write lands after them. With an index the value is stored at the index and the position
  still moves on by 8. Without index the call throws exactly when fewer than eight bytes
  are left after the position.
\<close>

theorem putU64_position:
  "(position b + 8 \<le> length (buffer b) \<longrightarrow>
      putU64 b d None
        = Inr (b\<lparr>position := position b + 16,
                 limit := max (limit b) (position b + 8),
                 buffer := write_at (buffer b) (position b) (u64_bytes (littleEndian b) d)\<rparr>))
   \<and> (i + 8 \<le> length (buffer b) \<longrightarrow>
      putU64 b d (Some i)
        = Inr (b\<lparr>position := position b + 8,
                 limit := max (limit b) (i + 8),
                 buffer := write_at (buffer b) i (u64_bytes (littleEndian b) d)\<rparr>))
   \<and> (position b + 8 > length (buffer b) \<longrightarrow>
      putU64 b d None = Inl (Throw ''failed to write over the capacity''))"
  by (rule putU64_result)

text \<open>
  In a new buffer of 24 bytes, for the value 0x0001020304050607: the value is followed
  by zero bytes and the position is 16; with the index 16 the value is stored at 16 and
  the position moves from 0 to 8; a buffer of 4 bytes is too small.
\<close>

theorem putU64_position_witness:
  "putU64 (ByteBuffer_new 24 False) 0x0001020304050607 None
     = Inr \<lparr>position = 16, limit = 24, littleEndian = False,
            buffer = [0, 1, 2, 3, 4, 5, 6, 7, 0, 0, 0, 0, 0, 0, 0, 0, 0, 0, 0, 0, 0, 0, 0, 0]\<rparr>
   \<and> putU64 (ByteBuffer_new 24 False) 0x0001020304050607 (Some 16)
     = Inr \<lparr>position = 8, limit = 24, littleEndian = False,
            buffer = [0, 0, 0, 0, 0, 0, 0, 0, 0, 0, 0, 0, 0, 0, 0, 0, 0, 1, 2, 3, 4, 5, 6, 7]\<rparr>
   \<and> putU64 (ByteBuffer_new 4 False) 0x0001020304050607 None
     = Inl (Throw ''failed to write over the capacity'')"
proof -
  have hi: "\<lfloor>(0x0001020304050607 :: rat) / 4294967296\<rfloor> = 0x00010203"
    by (simp add: floor_eq_iff)
  have bytes: "u64_bytes False 0x0001020304050607 = [0, 1, 2, 3, 4, 5, 6, 7]"
    unfolding u64_bytes_def Let_def hi
    by (simp add: ToUint32_def js_trunc_def bytes32_def be32_def)
  have w0: "write_at (replicate 24 (0::byte)) 0 [0, 1, 2, 3, 4, 5, 6, 7]
              = [0, 1, 2, 3, 4, 5, 6, 7, 0, 0, 0, 0, 0, 0, 0, 0, 0, 0, 0, 0, 0, 0, 0, 0]"
    by code_simp
  have w16: "write_at (replicate 24 (0::byte)) 16 [0, 1, 2, 3, 4, 5, 6, 7]
              = [0, 0, 0, 0, 0, 0, 0, 0, 0, 0, 0, 0, 0, 0, 0, 0, 0, 1, 2, 3, 4, 5, 6, 7]"
    by code_simp
  show ?thesis
    using putU64_position [of "ByteBuffer_new 24 False" "0x0001020304050607" 16]
          putU64_position [of "ByteBuffer_new 4 False" "0x0001020304050607" 0]
    by (simp add: ByteBuffer_new_def bytes w0 w16)
qed

section \<open>The AVCC description\<close>

lemma h264MakeAvcC_layout:
  "h264MakeAvcC S P =
     Inr ([0x01, u8_at S 1, u8_at S 2, u8_at S 3, 0xFF, 0xE1,
           of_nat (length S div 256), of_nat (length S) AND 0xff] @ S
          @ [0x01, of_nat (length P div 256), of_nat (length P) AND 0xff] @ P @ [0x00])"
  unfolding h264MakeAvcC_def Let_def u8set_def replicate_fill
  apply (simp add: fill_update fill_write_at length_fill)
  apply (simp add: fill_def)
  done

text \<open>
  C3. \<^verbatim>\<open>h264MakeAvcC\<close> returns the bytes 01, S[1], S[2], S[3], FF, E1, the length of S
  (two bytes, big-endian), S, 01, the length of P, P, and then one more byte 00: the array
  is allocated with 7 bytes for a header of which 6 are written. For S = 67 42 E0 1E and
  P = 68 CE 3C 80 the description has 20 bytes, the last of them 00.
\<close>

theorem h264MakeAvcC_bytes:
  "h264MakeAvcC S P =
     Inr ([0x01, u8_at S 1, u8_at S 2, u8_at S 3, 0xFF, 0xE1,
           of_nat (length S div 256), of_nat (length S) AND 0xff] @ S
          @ [0x01, of_nat (length P div 256), of_nat (length P) AND 0xff] @ P @ [0x00])
   \<and> h264MakeAvcC [0x67, 0x42, 0xE0, 0x1E] [0x68, 0xCE, 0x3C, 0x80] =
     Inr [0x01, 0x42, 0xE0, 0x1E, 0xFF, 0xE1, 0x00, 0x04, 0x67, 0x42, 0xE0, 0x1E,
          0x01, 0x00, 0x04, 0x68, 0xCE, 0x3C, 0x80, 0x00]"
  by (simp add: h264MakeAvcC_layout u8_at_def)

section \<open>The codec string\<close>

lemma numToHex_byte: "numToHex (unat (x :: byte)) = two_hex_digits x"
proof -
  have "unat x < 256" using unsigned_less [of x, where 'a = nat] by simp
  then have d: "unat x div 16 < 16" by simp
  show ?thesis
    using d by (simp add: numToHex_def two_hex_digits_def Let_def hex_digit_def)
qed

lemma h264ParseSps_bytes:
  "h AND 0x1f = 7 \<Longrightarrow>
   h264ParseSps (ByteBuffer_of (h # p # c # l # rest) False)
     = Inr \<lparr>profileIdc = unat p, constraintFlags = unat c, levelIdc = unat l,
            avc1 = ''avc1.'' @ two_hex_digits p @ two_hex_digits c @ two_hex_digits l\<rparr>"
  by (simp add: h264ParseSps_def getU8_def ByteBuffer_of_def bytesUsed_def Let_def numToHex_byte)

text \<open>
  C9. When the translator is handed an SPS, that is a NAL unit whose header byte has
  type 7 and that has the three bytes profile_idc, constraint_flags and level_idc after
  it, it buffers the unit, leaves it out of the chunk and sets the codec of its
  configuration to \<open>avc1.\<close> followed by the three bytes, each as two lower-case
  hexadecimal digits.
\<close>

theorem h264_onChunkUnit_codec:
  assumes "h264NalType h = 7" and "decoderConfig s = Some cfg"
  shows "h264_onChunkUnit s (h # profile_idc # constraint_flags # level_idc # rest)
         = (Inr False,
            s\<lparr>H264StreamVideoTranslator.sps :=
                 Some (h # profile_idc # constraint_flags # level_idc # rest),
              decoderConfig :=
                 Some (cfg\<lparr>codec := ''avc1.'' @ two_hex_digits profile_idc
                                    @ two_hex_digits constraint_flags
                                    @ two_hex_digits level_idc\<rparr>)\<rparr>)"
  using assms
  by (simp add: h264_onChunkUnit_def h264NalType_def u8_at_def Let_def h264ParseSps_bytes)

text \<open>The SPS 67 64 00 32 sets the codec \<open>avc1.640032\<close>.\<close>

theorem h264_onChunkUnit_codec_witness:
  "h264NalType 0x67 = 7
   \<and> map_option codec
        (decoderConfig (snd (h264_onChunkUnit H264StreamVideoTranslator_new [0x67, 0x64, 0x00, 0x32])))
     = Some ''avc1.640032''"
  using h264_onChunkUnit_codec [of "0x67" H264StreamVideoTranslator_new
          "\<lparr>codec = ''undefined'', description = None,
            hardwareAcceleration = None, optimizeForLatency = None\<rparr>" "0x64" "0x00" "0x32" "[]"]
  by (simp add: h264NalType_def H264StreamVideoTranslator_new_def two_hex_digits_def hex_digit_def)

section \<open>The canvas-renderer table\<close>

lemma instanceof_upto_Constructor:
  "instanceof_upto n (Constructor r) c = False \<and> instanceof_upto n FunctionPrototype c = False
   \<and> instanceof_upto n ObjectPrototype c = False"
proof (induction n arbitrary: r)
  case 0
  show ?case by simp
next
  case (Suc n)
  show ?case
    using Suc [of "the (superclass r)"]
    by (cases n) (auto simp: getPrototypeOf_def split: option.splits)
qed

text \<open>
  C5. \<^verbatim>\<open>FORCE_CANVAS_PIPELINES\<close> is empty: the filter applies \<^verbatim>\<open>instanceof\<close> to the
  renderer classes of the table, and a class is not an instance of
  \<^verbatim>\<open>BaseCanvasVideoRenderer\<close>. With the canvas option set, the builder therefore iterates
  no chain and reports an error, also in an environment where every pipe and renderer is
  supported; iterating the six chains of the table whose renderer extends
  \<^verbatim>\<open>BaseCanvasVideoRenderer\<close> would build the first of them for the input "data".
\<close>

theorem buildVideoPipeline_canvas_option:
  "FORCE_CANVAS_PIPELINES = []
   \<and> buildVideoPipeline all_supported ''data'' canvas_settings = BuildFailed
   \<and> map renderer spec_canvas_pipelines
       = [MainCanvasRenderer, OffscreenCanvasRenderer, MainCanvasRenderer,
          MainCanvasRenderer, OffscreenCanvasRenderer, MainCanvasRenderer]
   \<and> pipelineLoop all_supported ''data'' canvas_settings spec_canvas_pipelines
       = Built (MainCanvasRenderer, [DepacketizeVideoPipe, VideoDecoderPipe, CanvasFrameDrawPipe]) ()"
proof -
  have empty: "FORCE_CANVAS_PIPELINES = []"
    by (simp add: FORCE_CANVAS_PIPELINES_def instanceof_def instanceof_upto_Constructor)
  have failed: "buildVideoPipeline all_supported ''data'' canvas_settings = BuildFailed"
    by (simp add: buildVideoPipeline_def empty canvas_settings_def)
  have spec: "map renderer spec_canvas_pipelines
       = [MainCanvasRenderer, OffscreenCanvasRenderer, MainCanvasRenderer,
          MainCanvasRenderer, OffscreenCanvasRenderer, MainCanvasRenderer]"
    by code_simp
  have built: "pipelineLoop all_supported ''data'' canvas_settings spec_canvas_pipelines
       = Built (MainCanvasRenderer, [DepacketizeVideoPipe, VideoDecoderPipe, CanvasFrameDrawPipe]) ()"
    by code_simp
  show ?thesis
    using empty failed spec built by simp
qed


section \<open>Box lengths\<close>

lemma unat_drop_bit_div: "unat (drop_bit k (w :: 'a::len word)) = unat w div 2 ^ k"
  unfolding unat_drop_bit_eq by (simp add: drop_bit_eq_div)

lemma split32:
  assumes "(n::nat) < 4294967296"
  shows "(n div 16777216) mod 256 * 16777216 + (n div 65536) mod 256 * 65536
         + (n div 256) mod 256 * 256 + n mod 256 = n"
proof -
  define a where "a = n div 256"
  define b where "b = a div 256"
  define c where "c = b div 256"
  have e2: "n div 65536 = b" and e3: "n div 16777216 = c"
    by (simp_all add: a_def b_def c_def div_mult2_eq [symmetric])
  have "c < 256" using assms unfolding e3 [symmetric] by simp
  then have c: "c mod 256 = c" by simp
  have n: "n = 256 * a + n mod 256" by (simp add: a_def)
  have a: "a = 256 * b + a mod 256" by (simp add: b_def)
  have b: "b = 256 * c + b mod 256" by (simp add: c_def)
  have "c * 16777216 + (b mod 256) * 65536 + (a mod 256) * 256 + n mod 256 = n"
    using n a b by linarith
  then show ?thesis
    by (simp add: e2 e3 c a_def [symmetric])
qed

lemma rd32_be32: "rd32 (be32 w) 0 = unat w"
  using split32 [of "unat w"] unsigned_less [of w, where 'a = nat]
  by (simp add: rd32_def be32_def unat_drop_bit_div unsigned_ucast_eq take_bit_eq_mod)

lemma rd32_write_at:
  "p + 4 \<le> length buf \<Longrightarrow> rd32 (write_at buf p (be32 w)) p = unat w"
proof -
  assume a: "p + 4 \<le> length buf"
  have "rd32 (write_at buf p (be32 w)) p = rd32 (be32 w) 0"
    using a by (simp add: rd32_def nth_write_at numeral_2_eq_2 numeral_3_eq_3)
  then show ?thesis by (simp add: rd32_be32)
qed

lemma ToUint32_of_nat: "ToUint32 (of_nat n) = of_nat n"
  by (simp add: ToUint32_def js_trunc_def)

lemma ToUint32_diff:
  "a \<le> b \<Longrightarrow> ToUint32 (of_nat b - of_nat a) = of_nat (b - a)"
  by (simp add: ToUint32_of_nat flip: of_nat_diff)

lemma putU32_None_Inr:
  "putU32 b x None = Inr b' \<Longrightarrow>
   position b' = position b + 4 \<and> littleEndian b' = littleEndian b
   \<and> length (buffer b') = length (buffer b)"
  by (auto simp: putU32_def useDataView_def bytesUsed_def view_set_def Let_def length_write_at
        split: if_splits)

lemma putUtf8Raw_Inr:
  "putUtf8Raw b text = Inr b' \<Longrightarrow>
   position b' = position b + length text \<and> littleEndian b' = littleEndian b"
  by (auto simp: putUtf8Raw_def bytesUsed_def Let_def and_then_def split: if_splits)

lemma putU32_Some_Inr:
  "putU32 b x (Some i) = Inr b' \<Longrightarrow>
   i + 4 \<le> length (buffer b) \<and> position b' = position b \<and> littleEndian b' = littleEndian b
   \<and> buffer b' = write_at (buffer b) i (bytes32 (littleEndian b) (ToUint32 x))"
  by (auto simp: putU32_def useDataView_def view_set_def Let_def split: if_splits)

lemma putU8_None_Inr:
  "putU8 b x None = Inr b' \<Longrightarrow> position b' = position b + 1 \<and> littleEndian b' = littleEndian b"
  by (auto simp: putU8_def useDataView_def bytesUsed_def view_set_def Let_def split: if_splits)

lemma putU64_None_Inr:
  "putU64 b x None = Inr b' \<Longrightarrow> position b' = position b + 16 \<and> littleEndian b' = littleEndian b"
  by (auto simp: putU64_def useDataView_def bytesUsed_def view_set_def Let_def split: if_splits)

text \<open>
  C6. \<^verbatim>\<open>putBox\<close> on a big-endian buffer, with a body that only moves the position forward
  and ends below 4 GiB: when the call returns, the 32-bit big-endian number at the
  position where the box began is the number of bytes from there to the position after
  the box, which is 8 for the header plus what the body advanced. A body that calls
  \<^verbatim>\<open>putU64\<close> advances by 16 for it, and the length field counts all 16.
\<close>

theorem putBox_length_field:
  assumes ok: "putBox b ty write = Inr b'"
      and be: "\<not> littleEndian b"
      and adv: "\<And>x y. write x = Inr y \<Longrightarrow> position x \<le> position y \<and> littleEndian y = littleEndian x"
      and small: "position b' < 4294967296"
  shows "position b + 8 \<le> position b' \<and> rd32 (buffer b') (position b) = position b' - position b"
proof -
  from ok obtain b1 where b1: "putU32 b 0 None = Inr b1"
    by (cases "putU32 b 0 None") (simp_all add: putBox_def Let_def)
  from ok b1 have ty: "length ty = 4"
    by (simp add: putBox_def Let_def split: if_splits)
  from ok b1 ty obtain b2 where b2: "putUtf8Raw b1 ty = Inr b2"
    by (cases "putUtf8Raw b1 ty") (simp_all add: putBox_def Let_def)
  from ok b1 ty b2 obtain b3 where b3: "write b2 = Inr b3"
    by (cases "write b2") (simp_all add: putBox_def Let_def)
  from ok b1 ty b2 b3
  have patch: "putU32 b3 (of_nat (position b3) - of_nat (position b)) (Some (position b)) = Inr b'"
    by (simp add: putBox_def Let_def getPosition_def)
  have p1: "position b1 = position b + 4" "littleEndian b1 = littleEndian b"
    using putU32_None_Inr [OF b1] by simp_all
  have p2: "position b2 = position b + 8" "littleEndian b2 = littleEndian b"
    using putUtf8Raw_Inr [OF b2] p1 ty by simp_all
  have p3: "position b + 8 \<le> position b3" "littleEndian b3 = littleEndian b"
    using adv [OF b3] p2 by simp_all
  note p4 = putU32_Some_Inr [OF patch]
  have pos: "position b' = position b3" using p4 by simp
  have le: "position b \<le> position b3" using p3 by simp
  have "rd32 (buffer b') (position b) = unat (of_nat (position b3 - position b) :: 32 word)"
    using p4 p3 be by (simp add: bytes32_def ToUint32_diff [OF le] rd32_write_at)
  also have "\<dots> = position b3 - position b"
    using small pos by (simp add: unat_of_nat)
  finally show ?thesis using p3 pos by simp
qed

section \<open>Writes into a new buffer\<close>

lemma ByteBuffer_new_fresh: "ByteBuffer_new cap False = fresh [] cap ()"
  by (simp add: ByteBuffer_new_def fresh_def fill_def)

lemma position_fresh [simp]: "position (fresh pre cap m) = length pre"
  by (simp add: fresh_def)

lemma writesI:
  "(\<And>pre cap m. length pre + length bs \<le> cap \<Longrightarrow>
      w (fresh pre cap m) = Inr (fresh (pre @ bs) cap (f (length pre) m))) \<Longrightarrow> writes w bs f"
  by (simp add: writes_def)

lemma writesD:
  "writes w bs f \<Longrightarrow> length pre + length bs \<le> cap \<Longrightarrow>
   w (fresh pre cap m) = Inr (fresh (pre @ bs) cap (f (length pre) m))"
  by (simp add: writes_def)

lemma writes_eq: "writes w bs f \<Longrightarrow> bs = bs' \<Longrightarrow> f = f' \<Longrightarrow> writes w bs' f'"
  by simp

lemma fresh_view:
  "length pre + length bs \<le> cap \<Longrightarrow>
   write_at (fill pre (cap - length pre)) (length pre) bs
     = fill (pre @ bs) (cap - (length pre + length bs))"
  by (simp add: fill_write_at)

lemma bytes32_False [simp]: "bytes32 False = be32"
  by (rule ext) (simp add: bytes32_def)

lemma bytes16_False [simp]: "bytes16 False = be16"
  by (rule ext) (simp add: bytes16_def)

lemma ToUint32_8_plus: "ToUint32 (8 + rat_of_nat n) = 8 + of_nat n"
  using ToUint32_of_nat [of "8 + n"] by simp

lemma writes_putU8: "writes (\<lambda>b. putU8 b x None) [ToUint8 x] keep"
  by (rule writesI)
     (simp add: putU8_def useDataView_def bytesUsed_def view_set_def fresh_def Let_def
        length_fill fill_write_at keep_def)

lemma writes_putU16: "writes (\<lambda>b. putU16 b x None) (be16 (ToUint16 x)) keep"
  by (rule writesI)
     (simp add: putU16_def useDataView_def bytesUsed_def view_set_def fresh_def Let_def
        length_fill fill_write_at keep_def bytes16_def be16_def)

lemma writes_putI16: "writes (\<lambda>b. putI16 b x None) (be16 (ToUint16 x)) keep"
  by (rule writesI)
     (simp add: putI16_def useDataView_def bytesUsed_def view_set_def fresh_def Let_def
        length_fill fill_write_at keep_def bytes16_def be16_def)

lemma writes_putU32: "writes (\<lambda>b. putU32 b x None) (be32 (ToUint32 x)) keep"
  by (rule writesI)
     (simp add: putU32_def useDataView_def bytesUsed_def view_set_def fresh_def Let_def
        length_fill fill_write_at keep_def bytes32_def)

lemma writes_putI32: "writes (\<lambda>b. putI32 b x None) (be32 (ToUint32 x)) keep"
  by (rule writesI)
     (simp add: putI32_def useDataView_def bytesUsed_def view_set_def fresh_def Let_def
        length_fill fill_write_at keep_def)

lemma fill_zeros: "fill (pre @ replicate j 0) k = fill pre (j + k)"
  by (simp add: fill_def replicate_add)

lemma length_u64_bytes [simp]: "length (u64_bytes le d) = 8"
  by (simp add: u64_bytes_def Let_def)

lemma writes_putU64: "writes (\<lambda>b. putU64 b x None) (u64_bytes False x @ replicate 8 0) keep"
proof (rule writesI)
  fix pre :: "byte list" and cap :: nat and m :: 'a
  assume fits: "length pre + length (u64_bytes False x @ replicate 8 0) \<le> cap"
  then have c: "length pre + 16 \<le> cap" by simp
  have "putU64 (fresh pre cap m) x None
          = Inr ((fresh pre cap m)\<lparr>position := length pre + 16,
                  limit := max cap (length pre + 8),
                  buffer := write_at (fill pre (cap - length pre)) (length pre) (u64_bytes False x)\<rparr>)"
    using putU64_result [of "fresh pre cap m" x 0] c
    by (simp add: fresh_def length_fill)
  also have "\<dots> = Inr (fresh ((pre @ u64_bytes False x) @ replicate 8 0) cap m)"
    using c unfolding fill_zeros fresh_def
    by (simp add: fill_write_at max_def add.commute)
  finally show "putU64 (fresh pre cap m) x None
          = Inr (fresh (pre @ u64_bytes False x @ replicate 8 0) cap (keep (length pre) m))"
    by (simp add: keep_def)
qed

lemma writes_putU8Array: "writes (\<lambda>b. putU8Array b xs None) xs keep"
  by (rule writesI)
     (simp add: putU8Array_def bytesUsed_def fresh_def Let_def length_fill fill_write_at keep_def)

lemma writes_putU32Array:
  "writes (\<lambda>b. putU32Array b xs None) (concat (map be32 xs)) keep"
  by (rule writesI)
     (simp add: putU32Array_def bytesUsed_def fresh_def Let_def length_fill fill_write_at keep_def
        bytes32_def length_concat comp_def sum_list_triv)

lemma writes_putU16Array:
  "writes (\<lambda>b. putU16Array b xs None) (concat (map be16 xs)) keep"
  by (rule writesI)
     (simp add: putU16Array_def bytesUsed_def fresh_def Let_def length_fill fill_write_at keep_def
        bytes16_def be16_def length_concat comp_def sum_list_triv)

lemma writes_putUtf8Raw: "writes (\<lambda>b. putUtf8Raw b text) (map of_char text) keep"
  by (rule writesI)
     (auto simp: putUtf8Raw_def bytesUsed_def fresh_def Let_def length_fill fill_write_at keep_def
        min_def)

lemma writes_Inr: "writes (\<lambda>b. Inr b) [] keep"
  by (rule writesI) (simp add: keep_def)

lemma writes_seq_Nil: "writes (seq []) [] keep"
  by (rule writesI) (simp add: keep_def)

lemma writes_seq_Cons:
  assumes "writes w bs f" and "writes (seq ws) bs' f'"
  shows "writes (seq (w # ws)) (bs @ bs') (\<lambda>p m. f' (p + length bs) (f p m))"
proof (rule writesI)
  fix pre :: "byte list" and cap :: nat and m :: 'a
  assume "length pre + length (bs @ bs') \<le> cap"
  then have 1: "length pre + length bs \<le> cap" and 2: "length (pre @ bs) + length bs' \<le> cap"
    by simp_all
  show "seq (w # ws) (fresh pre cap m)
          = Inr (fresh (pre @ bs @ bs') cap (f' (length pre + length bs) (f (length pre) m)))"
    using writesD [OF assms(1) 1, of m] writesD [OF assms(2) 2] by simp
qed

lemma writes_and_then:
  assumes "writes w bs f" and "writes w' bs' f'"
  shows "writes (\<lambda>b. and_then (w b) w') (bs @ bs') (\<lambda>p m. f' (p + length bs) (f p m))"
proof (rule writesI)
  fix pre :: "byte list" and cap :: nat and m :: 'a
  assume "length pre + length (bs @ bs') \<le> cap"
  then have 1: "length pre + length bs \<le> cap" and 2: "length (pre @ bs) + length bs' \<le> cap"
    by simp_all
  show "and_then (w (fresh pre cap m)) w'
          = Inr (fresh (pre @ bs @ bs') cap (f' (length pre + length bs) (f (length pre) m)))"
    using writesD [OF assms(1) 1, of m] writesD [OF assms(2) 2] by simp
qed

lemma write_at_middle:
  "length a = length c \<Longrightarrow> write_at (fill (pre @ a @ rest) k) (length pre) c = fill (pre @ c @ rest) k"
  by (simp add: write_at_def fill_def)

lemma be32_0: "be32 0 = [0, 0, 0, 0]"
  by (simp add: be32_def)

lemma writes_putBox:
  assumes w: "writes w bs f" and ty: "length ty = 4"
  shows "writes (\<lambda>b. putBox b ty w) (be32 (of_nat (8 + length bs)) @ map of_char ty @ bs)
           (\<lambda>p m. f (p + 8) m)"
proof (rule writesI)
  fix pre :: "byte list" and cap :: nat and m :: 'a
  assume "length pre + length (be32 (of_nat (8 + length bs)) @ map of_char ty @ bs) \<le> cap"
  then have fits: "length pre + 8 + length bs \<le> cap" using ty by simp
  let ?hdr = "be32 (ToUint32 0) @ map of_char ty"
  have h: "length (pre @ ?hdr) = length pre + 8" using ty by simp
  have 1: "putU32 (fresh pre cap m) 0 None = Inr (fresh (pre @ be32 (ToUint32 0)) cap m)"
    using writesD [OF writes_putU32, of pre 0 cap m] fits by (simp add: keep_def)
  have 2: "putUtf8Raw (fresh (pre @ be32 (ToUint32 0)) cap m) ty = Inr (fresh (pre @ ?hdr) cap m)"
    using writesD [OF writes_putUtf8Raw, of "pre @ be32 (ToUint32 0)" ty cap m] fits ty
    by (simp add: keep_def)
  have 3: "w (fresh (pre @ ?hdr) cap m) = Inr (fresh ((pre @ ?hdr) @ bs) cap (f (length pre + 8) m))"
    using writesD [OF w, of "pre @ ?hdr" cap m] fits h by simp
  have 4: "putU32 (fresh ((pre @ ?hdr) @ bs) cap m')
             (of_nat (length pre + 8 + length bs) - of_nat (length pre)) (Some (length pre))
           = Inr (fresh (pre @ be32 (of_nat (8 + length bs)) @ map of_char ty @ bs) cap m')" for m'
    using fits ty
    by (simp add: putU32_def useDataView_def view_set_def fresh_def Let_def length_fill bytes32_def
          ToUint32_of_nat ToUint32_8_plus write_at_middle [of "be32 (ToUint32 0)", simplified] flip: of_nat_diff)
  show "putBox (fresh pre cap m) ty w
          = Inr (fresh (pre @ be32 (of_nat (8 + length bs)) @ map of_char ty @ bs) cap
                   (f (length pre + 8) m))"
    using ty 1 2 3 4 [of "f (length pre + 8) m"]
    by (simp add: putBox_def Let_def getPosition_def)
qed

lemma ToUint8_of_int: "ToUint8 (of_int i) = word_of_int i"
  by (simp add: ToUint8_def js_trunc_def)

lemma writes_box:
  "writes w bs f \<Longrightarrow> length ty = 4 \<Longrightarrow> writes (\<lambda>b. putBox b ty w) (box ty bs) (\<lambda>p m. f (p + 8) m)"
  unfolding box_def by (rule writes_putBox)

lemma writes_putFullBox:
  assumes w: "writes w bs f" and ty: "length ty = 4"
      and v: "0 \<le> version" "version \<le> 255" and fl: "0 \<le> flags" "flags \<le> 0xffffff"
  shows "writes (\<lambda>b. putFullBox b ty version flags w)
           (box ty ([word_of_int version, word_of_int (drop_bit 16 flags AND 0xff),
                     word_of_int (drop_bit 8 flags AND 0xff), word_of_int (flags AND 0xff)] @ bs))
           (\<lambda>p m. f (p + 12) m)"
proof -
  have "writes (\<lambda>b. putBox b ty
            (seq [\<lambda>b. putU8 b (of_int version) None,
                  \<lambda>b. putU8 b (of_int (drop_bit 16 flags AND 0xff)) None,
                  \<lambda>b. putU8 b (of_int (drop_bit 8 flags AND 0xff)) None,
                  \<lambda>b. putU8 b (of_int (flags AND 0xff)) None,
                  w]))
           (box ty ([word_of_int version, word_of_int (drop_bit 16 flags AND 0xff),
                     word_of_int (drop_bit 8 flags AND 0xff), word_of_int (flags AND 0xff)] @ bs))
           (\<lambda>p m. f (p + 12) m)"
    by (rule writes_eq [OF writes_box [OF
          writes_seq_Cons [OF writes_putU8
          writes_seq_Cons [OF writes_putU8
          writes_seq_Cons [OF writes_putU8
          writes_seq_Cons [OF writes_putU8
          writes_seq_Cons [OF w writes_seq_Nil]]]]] ty]])
       (simp_all add: ToUint8_of_int keep_def fun_eq_iff add.commute)
  then show ?thesis
    using v fl by (simp add: putFullBox_def)
qed

lemma writes_putMfhdBox:
  "writes (\<lambda>b. putMfhdBox b seqNo)
     (box ''mfhd'' ([0, 0, 0, 0] @ be32 (ToUint32 seqNo))) keep"
  unfolding putMfhdBox_def
  by (rule writes_eq [OF writes_putFullBox [OF writes_putU32]])
     (simp_all add: keep_def fun_eq_iff)

lemma writes_putTfhdBox:
  "writes (\<lambda>b. putTfhdBox b 1) (box ''tfhd'' ([0, 2, 0, 0] @ be32 1)) keep"
  unfolding putTfhdBox_def
  by (rule writes_eq [OF writes_putFullBox [OF writes_putU32]])
     (simp_all add: keep_def fun_eq_iff ToUint32_def js_trunc_def)

lemma writes_putTfdtBox:
  "writes (\<lambda>b. putTfdtBox b 1 baseDecodeTime)
     (box ''tfdt'' ([1, 0, 0, 0] @ u64_bytes False baseDecodeTime @ replicate 8 0)) keep"
proof -
  have e: "(\<lambda>b :: 'a ByteBuffer_scheme. putTfdtBox b 1 baseDecodeTime)
         = (\<lambda>b. putFullBox b ''tfdt'' 1 0 (\<lambda>b. putU64 b baseDecodeTime None))"
    by (simp add: putTfdtBox_def)
  show ?thesis
    unfolding e
    by (rule writes_eq [OF writes_putFullBox [OF writes_putU64]])
       (simp_all add: keep_def fun_eq_iff)
qed

lemma update_fresh:
  "(fresh pre cap m)\<lparr>dataOffsetPosition := x\<rparr> = fresh pre cap \<lparr>dataOffsetPosition = x\<rparr>"
  by (cases m) (simp add: fresh_def)

lemma writes_set_offset:
  "writes (\<lambda>b. Inr (b\<lparr>dataOffsetPosition := int (getPosition b)\<rparr>)) []
     (\<lambda>p m. \<lparr>dataOffsetPosition = int p\<rparr>)"
  by (rule writesI) (simp add: update_fresh getPosition_def)

lemma writes_putTrunBox:
  "writes (\<lambda>b. putTrunBox b frameDuration (of_nat frameSize) isKeyframe (seqNo = 1))
     (box ''trun'' (trun_payload seqNo frameDuration isKeyframe frameSize 0))
     (\<lambda>p m. \<lparr>dataOffsetPosition = int (p + 16)\<rparr>)"
proof (cases "seqNo = 1")
  case True
  have e: "(\<lambda>b. putTrunBox b frameDuration (of_nat frameSize) isKeyframe (seqNo = 1))
         = (\<lambda>b. putFullBox (b\<lparr>dataOffsetPosition := 0\<rparr>) ''trun'' 0 0x305
             (seq [\<lambda>b. putU32 b 1 None,
                   \<lambda>b. Inr (b\<lparr>dataOffsetPosition := int (getPosition b)\<rparr>),
                   \<lambda>b. putI32 b 0 None,
                   \<lambda>b. putU32 b (if isKeyframe then 0x02000000 else 0x01010000) None,
                   \<lambda>b. putU32 b frameDuration None,
                   \<lambda>b. putU32 b (of_nat frameSize) None,
                   \<lambda>b. Inr b]))"
    using True by (simp add: putTrunBox_def Let_def)
  have w: "writes (\<lambda>b. putFullBox b ''trun'' 0 0x305
             (seq [\<lambda>b. putU32 b 1 None,
                   \<lambda>b. Inr (b\<lparr>dataOffsetPosition := int (getPosition b)\<rparr>),
                   \<lambda>b. putI32 b 0 None,
                   \<lambda>b. putU32 b (if isKeyframe then 0x02000000 else 0x01010000) None,
                   \<lambda>b. putU32 b frameDuration None,
                   \<lambda>b. putU32 b (of_nat frameSize) None,
                   \<lambda>b. Inr b]))
           (box ''trun'' (trun_payload seqNo frameDuration isKeyframe frameSize 0))
           (\<lambda>p m. \<lparr>dataOffsetPosition = int (p + 16)\<rparr>)"
    by (rule writes_eq [OF writes_putFullBox [OF
          writes_seq_Cons [OF writes_putU32
          writes_seq_Cons [OF writes_set_offset
          writes_seq_Cons [OF writes_putI32
          writes_seq_Cons [OF writes_putU32
          writes_seq_Cons [OF writes_putU32
          writes_seq_Cons [OF writes_putU32
          writes_seq_Cons [OF writes_Inr writes_seq_Nil]]]]]]]]])
       (simp_all add: True keep_def fun_eq_iff trun_payload_def Let_def ToUint32_def js_trunc_def
          add.commute)
  show ?thesis
    unfolding e
    by (rule writesI) (simp add: update_fresh writesD [OF w])
next
  case False
  have e: "(\<lambda>b. putTrunBox b frameDuration (of_nat frameSize) isKeyframe (seqNo = 1))
         = (\<lambda>b. putFullBox (b\<lparr>dataOffsetPosition := 0\<rparr>) ''trun'' 0 0x701
             (seq [\<lambda>b. putU32 b 1 None,
                   \<lambda>b. Inr (b\<lparr>dataOffsetPosition := int (getPosition b)\<rparr>),
                   \<lambda>b. putI32 b 0 None,
                   \<lambda>b. Inr b,
                   \<lambda>b. putU32 b frameDuration None,
                   \<lambda>b. putU32 b (of_nat frameSize) None,
                   \<lambda>b. putU32 b (if isKeyframe then 0x02000000 else 0x01010000) None]))"
    using False by (simp add: putTrunBox_def Let_def)
  have w: "writes (\<lambda>b. putFullBox b ''trun'' 0 0x701
             (seq [\<lambda>b. putU32 b 1 None,
                   \<lambda>b. Inr (b\<lparr>dataOffsetPosition := int (getPosition b)\<rparr>),
                   \<lambda>b. putI32 b 0 None,
                   \<lambda>b. Inr b,
                   \<lambda>b. putU32 b frameDuration None,
                   \<lambda>b. putU32 b (of_nat frameSize) None,
                   \<lambda>b. putU32 b (if isKeyframe then 0x02000000 else 0x01010000) None]))
           (box ''trun'' (trun_payload seqNo frameDuration isKeyframe frameSize 0))
           (\<lambda>p m. \<lparr>dataOffsetPosition = int (p + 16)\<rparr>)"
    by (rule writes_eq [OF writes_putFullBox [OF
          writes_seq_Cons [OF writes_putU32
          writes_seq_Cons [OF writes_set_offset
          writes_seq_Cons [OF writes_putI32
          writes_seq_Cons [OF writes_Inr
          writes_seq_Cons [OF writes_putU32
          writes_seq_Cons [OF writes_putU32
          writes_seq_Cons [OF writes_putU32 writes_seq_Nil]]]]]]]]])
       (simp_all add: False keep_def fun_eq_iff trun_payload_def Let_def ToUint32_def js_trunc_def
          add.commute)
  show ?thesis
    unfolding e
    by (rule writesI) (simp add: update_fresh writesD [OF w])
qed

lemma length_box [simp]: "length ty = 4 \<Longrightarrow> length (box ty payload) = 8 + length payload"
  by (simp add: box_def)

lemma length_trun_payload [simp]: "length (trun_payload s d k n off) = 24"
  by (simp add: trun_payload_def Let_def)

lemma length_moof_box [simp]: "length (moof_box s t d k n off) = 108"
  by (simp add: moof_box_def)

lemma writes_moof:
  "writes (\<lambda>b. putMoofBox b
             (seq [\<lambda>b. putMfhdBox b seqNo,
                   \<lambda>b. putTrafBox b
                     (seq [\<lambda>b. putTfhdBox b 1,
                           \<lambda>b. putTfdtBox b 1 baseDecodeTime,
                           \<lambda>b. putTrunBox b frameDuration (of_nat frameSize) isKeyframe
                                  (seqNo = 1)])]))
     (moof_box seqNo baseDecodeTime frameDuration isKeyframe frameSize 0)
     (\<lambda>p m. \<lparr>dataOffsetPosition = int (p + 92)\<rparr>)"
  unfolding putMoofBox_def putTrafBox_def
  by (rule writes_eq [OF writes_box [OF
        writes_seq_Cons [OF writes_putMfhdBox
        writes_seq_Cons [OF writes_box [OF
            writes_seq_Cons [OF writes_putTfhdBox
            writes_seq_Cons [OF writes_putTfdtBox
            writes_seq_Cons [OF writes_putTrunBox writes_seq_Nil]]]]
          writes_seq_Nil]]]])
     (simp_all add: moof_box_def keep_def fun_eq_iff add.commute)

lemma moof_patch:
  "write_at (fill (moof_box s t d k n 0) j) 92 (be32 (of_nat off)) = fill (moof_box s t d k n off) j"
proof -
  define A where "A = be32 108 @ map of_char ''moof''
      @ box ''mfhd'' ([0, 0, 0, 0] @ be32 (ToUint32 s))
      @ be32 84 @ map of_char ''traf''
      @ box ''tfhd'' ([0, 2, 0, 0] @ be32 1)
      @ box ''tfdt'' ([1, 0, 0, 0] @ u64_bytes False t @ replicate 8 0)
      @ be32 32 @ map of_char ''trun'' @ (if s = 1 then [0, 0, 3, 5] else [0, 0, 7, 1]) @ be32 1"
  define B where "B = (if s = 1 then be32 (if k then 0x02000000 else 0x01010000) else [])
         @ be32 (ToUint32 d) @ be32 (of_nat n)
         @ (if s = 1 then [] else be32 (if k then 0x02000000 else 0x01010000))"
  have m: "moof_box s t d k n x = A @ be32 (of_nat x) @ B" for x
    by (simp add: moof_box_def box_def trun_payload_def Let_def A_def B_def)
  have lA: "length A = 92"
    by (simp add: A_def)
  show ?thesis
    unfolding m using write_at_middle [of "be32 (of_nat 0)" "be32 (of_nat off)" A B j] lA
    by simp
qed

lemma dataOffsetPosition_fresh [simp]:
  "dataOffsetPosition (fresh pre cap \<lparr>dataOffsetPosition = x\<rparr>) = x"
  by (simp add: fresh_def)

lemma extend_fresh: "ByteBuffer.extend (fresh pre cap ()) m = fresh pre cap m"
  by (simp add: ByteBuffer.extend_def fresh_def)

lemma truncate_fresh: "ByteBuffer.truncate (fresh pre cap m) = fresh pre cap ()"
  by (simp add: ByteBuffer.truncate_def fresh_def)

lemma putMdatBox_fresh:
  assumes "length pre + 8 \<le> cap"
  shows "putMdatBox (fresh pre cap m) frame
         = (if length pre + 8 + length frame \<le> cap
            then Inr (fresh (pre @ box ''mdat'' frame) cap m)
            else Inl (Throw ''failed to write over the capacity''))"
proof (cases "length pre + 8 + length frame \<le> cap")
  case True
  have "writes (\<lambda>b :: 'a ByteBuffer_scheme. putMdatBox b frame) (box ''mdat'' frame) keep"
    unfolding putMdatBox_def
    by (rule writes_eq [OF writes_box [OF writes_putU8Array]]) (simp_all add: keep_def fun_eq_iff)
  from writesD [OF this, of pre cap m] True show ?thesis
    by (simp add: keep_def)
next
  case False
  have 1: "putU32 (fresh pre cap m) 0 None = Inr (fresh (pre @ be32 (ToUint32 0)) cap m)"
    using writesD [OF writes_putU32, of pre 0 cap m] assms by (simp add: keep_def)
  have 2: "putUtf8Raw (fresh (pre @ be32 (ToUint32 0)) cap m) ''mdat''
             = Inr (fresh (pre @ be32 (ToUint32 0) @ map of_char ''mdat'') cap m)"
    using writesD [OF writes_putUtf8Raw, of "pre @ be32 (ToUint32 0)" "''mdat''" cap m] assms
    by (simp add: keep_def)
  have 3: "putU8Array (fresh (pre @ be32 (ToUint32 0) @ map of_char ''mdat'') cap m) frame None
             = Inl (Throw ''failed to write over the capacity'')"
    using False assms by (simp add: putU8Array_def fresh_def Let_def length_fill)
  show ?thesis
    using False 1 2 3 by (simp add: putMdatBox_def putBox_def Let_def)
qed

text \<open>
  The bytes of a frame segment. Every box in it starts with its own total length, by the
  definition of \<open>box\<close>.
\<close>

lemma putVideoFrameSegment_bytes:
  assumes cap: "116 \<le> cap"
  shows "putVideoFrameSegment (ByteBuffer_new cap False) 1 seqNo baseDecodeTime frameDuration
           isKeyframe frame
         = (if isKeyframe \<and> h264NalType (u8_at frame 4) \<noteq> 5
            then Inl (Throw ''tried to submit non idr as a keyframe'')
            else if 116 + length frame \<le> cap
            then Inr (fresh (frame_segment seqNo baseDecodeTime frameDuration isKeyframe frame) cap ())
            else Inl (Throw ''failed to write over the capacity''))"
proof -
  let ?m0 = "moof_box seqNo baseDecodeTime frameDuration isKeyframe (length frame) 0"
  have moof: "putMoofBox (fresh [] cap \<lparr>dataOffsetPosition = - 1\<rparr>)
             (seq [\<lambda>b. putMfhdBox b seqNo,
                   \<lambda>b. putTrafBox b
                     (seq [\<lambda>b. putTfhdBox b 1,
                           \<lambda>b. putTfdtBox b 1 baseDecodeTime,
                           \<lambda>b. putTrunBox b frameDuration (of_nat (length frame)) isKeyframe
                                  (seqNo = 1)])])
           = Inr (fresh ?m0 cap \<lparr>dataOffsetPosition = 92\<rparr>)"
    using writesD [OF writes_moof, of "[]" seqNo baseDecodeTime frameDuration isKeyframe
                     "length frame" cap "\<lparr>dataOffsetPosition = - 1\<rparr>"] cap
    by simp
  have patch: "putI32 (fresh ?m0 cap \<lparr>dataOffsetPosition = 92\<rparr>) (of_nat 108 - of_nat 0 + 8) (Some 92)
           = Inr (fresh (moof_box seqNo baseDecodeTime frameDuration isKeyframe (length frame) 116)
                    cap \<lparr>dataOffsetPosition = 92\<rparr>)"
    using cap moof_patch [of seqNo baseDecodeTime frameDuration isKeyframe "length frame" _ 116]
    by (simp add: putI32_def useDataView_def view_set_def fresh_def Let_def length_fill
          ToUint32_def js_trunc_def)
  show ?thesis
    using cap moof patch
    by (simp add: putVideoFrameSegment_def Let_def ByteBuffer_new_fresh extend_fresh getPosition_def
          putMdatBox_fresh truncate_fresh frame_segment_def)
qed

lemma getRemainingBuffer_flip_fresh:
  "length pre \<le> cap \<Longrightarrow> getRemainingBuffer (flip (fresh pre cap m)) = pre"
  by (simp add: getRemainingBuffer_def flip_def fresh_def slice_def fill_def)

text \<open>
  A version-1 \<^verbatim>\<open>tfdt\<close> box written into a new buffer: 8 bytes of header, 4 of version
  and flags, 8 of time and the 8 that \<^verbatim>\<open>putU64\<close> skips; the length field and the
  position after the box are both 28.
\<close>

theorem putBox_length_field_witness:
  "putTfdtBox (ByteBuffer_new 64 False) 1 90000
     = Inr (fresh (box ''tfdt'' ([1, 0, 0, 0] @ u64_bytes False 90000 @ replicate 8 0)) 64 ())
   \<and> position (fresh (box ''tfdt'' ([1, 0, 0, 0] @ u64_bytes False 90000 @ replicate 8 0)) 64 ()) = 28
   \<and> rd32 (buffer (fresh (box ''tfdt'' ([1, 0, 0, 0] @ u64_bytes False 90000 @ replicate 8 0)) 64 ())) 0
       = 28"
proof -
  let ?body = "seq [\<lambda>b :: ByteBuffer. putU8 b (of_int 1) None,
                    \<lambda>b. putU8 b (of_int (drop_bit 16 0 AND 0xff)) None,
                    \<lambda>b. putU8 b (of_int (drop_bit 8 0 AND 0xff)) None,
                    \<lambda>b. putU8 b (of_int (0 AND 0xff)) None,
                    \<lambda>b. putU64 b 90000 None]"
  let ?b' = "fresh (box ''tfdt'' ([1, 0, 0, 0] @ u64_bytes False 90000 @ replicate 8 0)) 64 ()"
  have tfdt: "putTfdtBox (ByteBuffer_new 64 False) 1 90000 = Inr ?b'"
    using writesD [OF writes_putTfdtBox, of "[]" 90000 64 "()"]
    by (simp add: ByteBuffer_new_fresh keep_def)
  have unf: "putTfdtBox (ByteBuffer_new 64 False) 1 90000
                  = putBox (ByteBuffer_new 64 False) ''tfdt'' ?body"
    by (simp add: putTfdtBox_def putFullBox_def)
  have adv: "position x \<le> position y \<and> littleEndian y = littleEndian x"
    if "?body x = Inr y" for x y
    using that
    by (auto simp: and_then_def split: sum.splits dest!: putU8_None_Inr putU64_None_Inr)
  have "position (ByteBuffer_new 64 False) + 8 \<le> position ?b'
        \<and> rd32 (buffer ?b') (position (ByteBuffer_new 64 False))
            = position ?b' - position (ByteBuffer_new 64 False)"
  proof (rule putBox_length_field [of "ByteBuffer_new 64 False" "''tfdt''" "?body" "?b'"])
    show "putBox (ByteBuffer_new 64 False) ''tfdt'' ?body = Inr ?b'"
      using tfdt unf by simp
    show "\<not> littleEndian (ByteBuffer_new 64 False)"
      by (simp add: ByteBuffer_new_def)
    show "position x \<le> position y \<and> littleEndian y = littleEndian x" if "?body x = Inr y" for x y
      using that by (rule adv)
    show "position ?b' < 4294967296"
      by simp
  qed
  then show ?thesis
    using tfdt by (simp add: ByteBuffer_new_def)
qed

section \<open>The IDR request of the hardware decoder pipe\<close>

lemma queueDelayExceeds_60_20: "queueDelayExceeds 20 60 200"
  by (simp add: queueDelayExceeds_def)

lemma pollRequestIdr_clear:
  assumes "VideoDecoderPipe.fps s = 60" and "decodeQueueSize (decoder s) = 20" and "\<not> requestedIdr s"
  shows "pollRequestIdr s base = (True, (reset s)\<lparr>requestedIdr := True\<rparr>)"
  using assms by (simp add: pollRequestIdr_def queueDelayExceeds_60_20 split: option.splits)

lemma pollRequestIdr_latched:
  assumes "requestedIdr s"
  shows "pollRequestIdr s base = (base = Some True, s)"
  using assms by (cases base) (auto simp: pollRequestIdr_def)

lemma reset_decoder:
  "decoder (reset s) =
     (case VideoDecoderPipe.translator s of
        Some t \<Rightarrow> decoder s
      | None \<Rightarrow> (case config s of
                   Some cfg \<Rightarrow> decoder_configure (decoder_reset (decoder s)) cfg
                 | None \<Rightarrow> decoder_reset (decoder s)))"
  by (simp add: reset_def this_config_def Let_def split: option.splits)

lemma submitToDecoder_latch:
  "requestedIdr (snd (submitToDecoder s u)) =
     (requestedIdr s \<and>
      (case VideoDecoderPipe.translator s of
         Some t \<Rightarrow> \<not> reconfigures t u
       | None \<Rightarrow> type u \<noteq> Key \<and> needsKeyFrame s))"
  by (auto simp: submitToDecoder_def reconfigures_def Let_def
        split: option.splits prod.splits sum.splits TranslateResult.splits)

text \<open>
  C8, as amended. At 60 frames per second with 20 requests queued and the latch clear,
  \<^verbatim>\<open>pollRequestIdr\<close> returns true, calls \<^verbatim>\<open>reset\<close> and sets the latch. \<^verbatim>\<open>reset\<close>
  resets and re-configures the decoder and marks a key frame as needed when the pipe has no
  translator; when it has one, the decoder is left as it is. While the latch is set,
  \<^verbatim>\<open>pollRequestIdr\<close> changes nothing and returns true exactly when the base pipe's
  \<^verbatim>\<open>pollRequestIdr\<close> does. Submitting a unit never sets the latch and clears it in two
  cases only: with a translator, when the unit carries a reconfigure; without one, when the
  unit is submitted to the decoder, which after a \<^verbatim>\<open>reset\<close> takes a key frame.
\<close>

theorem pollRequestIdr_hysteresis:
  "(VideoDecoderPipe.fps s = 60 \<and> decodeQueueSize (decoder s) = 20 \<and> \<not> requestedIdr s \<longrightarrow>
      pollRequestIdr s base = (True, (reset s)\<lparr>requestedIdr := True\<rparr>)
      \<and> (VideoDecoderPipe.translator s = None \<longrightarrow>
            needsKeyFrame (reset s)
            \<and> decoder (reset s)
                = (case config s of
                     Some cfg \<Rightarrow> decoder_configure (decoder_reset (decoder s)) cfg
                   | None \<Rightarrow> decoder_reset (decoder s)))
      \<and> (VideoDecoderPipe.translator s \<noteq> None \<longrightarrow> decoder (reset s) = decoder s))
   \<and> (requestedIdr s \<longrightarrow> pollRequestIdr s base = (base = Some True, s))
   \<and> requestedIdr (snd (submitToDecoder s u))
       = (requestedIdr s \<and>
          (case VideoDecoderPipe.translator s of
             Some t \<Rightarrow> \<not> reconfigures t u
           | None \<Rightarrow> type u \<noteq> Key \<and> needsKeyFrame s))
   \<and> (\<not> VideoDecoderPipe.errored s \<and> decoderSetupFinished s \<and> bufferedUnits s = [] \<longrightarrow>
        VideoDecoderPipe_submitDecodeUnit s u = submitToDecoder s u)
   \<and> (VideoDecoderPipe.errored s \<or> \<not> decoderSetupFinished s \<longrightarrow>
        requestedIdr (snd (VideoDecoderPipe_submitDecodeUnit s u)) = requestedIdr s)"
  using pollRequestIdr_clear [of s base] pollRequestIdr_latched [of s base]
        submitToDecoder_latch [of s u] reset_decoder [of s]
  by (auto simp: VideoDecoderPipe_submitDecodeUnit_def reset_def Let_def split: option.splits)

text \<open>
  With an H.264 translator the call returns true and sets the latch, but the decoder has
  received no call and still has its 20 requests queued: it has not been reset.
\<close>

theorem pollRequestIdr_translator_counterexample:
  "fst (pollRequestIdr (backlogged_pipe (Some (H264Translator H264StreamVideoTranslator_new)) False) None)
   \<and> requestedIdr (snd (pollRequestIdr (backlogged_pipe (Some (H264Translator H264StreamVideoTranslator_new)) False) None))
   \<and> decoder (snd (pollRequestIdr (backlogged_pipe (Some (H264Translator H264StreamVideoTranslator_new)) False) None))
       = \<lparr>decodeQueueSize = 20, calls = []\<rparr>"
  by (simp add: pollRequestIdr_def backlogged_pipe_def VideoDecoderPipe_new_def queueDelayExceeds_60_20 reset_def
        this_config_def translator_getCurrentConfig_def H264StreamVideoTranslator_new_def
        translator_setBaseConfig_def setBaseConfig_def)

text \<open>
  Without translator and with the configuration that \<^verbatim>\<open>setup\<close> has found: the first
  poll resets the decoder, configures it again and latches; with the latch set, a poll
  returns what the base pipe returns; a delta unit leaves the latch set while a key frame
  is needed, and a key unit clears it.
\<close>

theorem pollRequestIdr_hysteresis_witness:
  "pollRequestIdr
     ((backlogged_pipe None False)
        \<lparr>config := Some \<lparr>codec = ''avc3.42E01E'', description = None,
                           hardwareAcceleration = Some ''prefer-hardware'',
                           optimizeForLatency = Some True\<rparr>\<rparr>)
     (Some False)
     = (True, (backlogged_pipe None False)
                \<lparr>config := Some \<lparr>codec = ''avc3.42E01E'', description = None,
                                   hardwareAcceleration = Some ''prefer-hardware'',
                                   optimizeForLatency = Some True\<rparr>,
                  decoder :=
                    \<lparr>decodeQueueSize = 0,
                      calls = [DecoderReset,
                               DecoderConfigure
                                 \<lparr>codec = ''avc3.42E01E'', description = None,
                                   hardwareAcceleration = Some ''prefer-hardware'',
                                   optimizeForLatency = Some True\<rparr>]\<rparr>,
                  needsKeyFrame := True, requestedIdr := True\<rparr>)
   \<and> pollRequestIdr (backlogged_pipe None True) (Some False) = (False, backlogged_pipe None True)
   \<and> pollRequestIdr (backlogged_pipe None True) (Some True) = (True, backlogged_pipe None True)
   \<and> requestedIdr (snd (VideoDecoderPipe_submitDecodeUnit
        ((backlogged_pipe None True)\<lparr>needsKeyFrame := True\<rparr>)
        \<lparr>type = Delta, data = [], timestampMicroseconds = 0, durationMicroseconds = 0\<rparr>))
   \<and> \<not> requestedIdr (snd (VideoDecoderPipe_submitDecodeUnit
        ((backlogged_pipe None True)\<lparr>needsKeyFrame := True\<rparr>)
        \<lparr>type = Key, data = [], timestampMicroseconds = 0, durationMicroseconds = 0\<rparr>))"
  using pollRequestIdr_hysteresis
          [of "(backlogged_pipe None False)
                 \<lparr>config := Some \<lparr>codec = ''avc3.42E01E'', description = None,
                                    hardwareAcceleration = Some ''prefer-hardware'',
                                    optimizeForLatency = Some True\<rparr>\<rparr>" "Some False"]
        pollRequestIdr_hysteresis [of "backlogged_pipe None True" "Some False"]
        pollRequestIdr_hysteresis [of "backlogged_pipe None True" "Some True"]
        pollRequestIdr_hysteresis [of "(backlogged_pipe None True)\<lparr>needsKeyFrame := True\<rparr>" _
          "\<lparr>type = Delta, data = [], timestampMicroseconds = 0, durationMicroseconds = 0\<rparr>"]
        pollRequestIdr_hysteresis [of "(backlogged_pipe None True)\<lparr>needsKeyFrame := True\<rparr>" _
          "\<lparr>type = Key, data = [], timestampMicroseconds = 0, durationMicroseconds = 0\<rparr>"]
  by (simp add: backlogged_pipe_def VideoDecoderPipe_new_def reset_def this_config_def decoder_reset_def
        decoder_configure_def Let_def)

section \<open>Scanning an Annex-B access unit\<close>

lemma slice_whole [simp]: "slice xs 0 (length xs) = xs"
  by (simp add: slice_def)

lemma handleStartCode_slice:
  "handleStartCode h dat ub pos cfs s = handleStartCode h (slice dat ub pos) 0 (length (slice dat ub pos)) cfs s"
  by (simp add: handleStartCode_def)

lemma foldl_feed_Inl [simp]: "foldl (feed h) (Inl e, s) xs = (Inl e, s)"
  by (induction xs) (simp_all add: feed_def)

lemma feed_Inr: "feed h (Inr cfs, s) slc = handleStartCode h slc 0 (length slc) cfs s"
  by (simp add: feed_def)


lemma length_START_CODE_LONG: "length START_CODE_LONG = 4"
  by (simp add: START_CODE_LONG_def)

lemma length_START_CODE_SHORT: "length START_CODE_SHORT = 3"
  by (simp add: START_CODE_SHORT_def)

lemma scanUnit_end:
  "\<not> pos < length dat \<Longrightarrow> scanUnit h dat ub pos cfs s = (Inr (ub, pos, cfs), s)"
  by (subst scanUnit.simps) simp

lemma scanUnit_none:
  "pos < length dat \<Longrightarrow> \<not> startsWith dat pos START_CODE_LONG \<Longrightarrow>
   \<not> startsWith dat pos START_CODE_SHORT \<Longrightarrow>
   scanUnit h dat ub pos cfs s = scanUnit h dat ub (pos + 1) cfs s"
  by (subst scanUnit.simps) (simp add: Let_def)

lemma scanUnit_long:
  "pos < length dat \<Longrightarrow> startsWith dat pos START_CODE_LONG \<Longrightarrow>
   scanUnit h dat ub pos cfs s =
     (case (if pos \<noteq> 0 then handleStartCode h dat ub pos cfs s else (Inr cfs, s)) of
        (Inl e, s1) \<Rightarrow> (Inl e, s1)
      | (Inr cfs1, s1) \<Rightarrow> scanUnit h dat (pos + 4) (pos + 4) cfs1 s1)"
  by (subst scanUnit.simps) (simp add: Let_def length_START_CODE_LONG)

lemma scanUnit_short:
  "pos < length dat \<Longrightarrow> \<not> startsWith dat pos START_CODE_LONG \<Longrightarrow>
   startsWith dat pos START_CODE_SHORT \<Longrightarrow>
   scanUnit h dat ub pos cfs s =
     (case (if pos \<noteq> 0 then handleStartCode h dat ub pos cfs s else (Inr cfs, s)) of
        (Inl e, s1) \<Rightarrow> (Inl e, s1)
      | (Inr cfs1, s1) \<Rightarrow> scanUnit h dat (pos + 3) (pos + 3) cfs1 s1)"
  by (subst scanUnit.simps) (simp add: Let_def length_START_CODE_SHORT)


lemma nal_slices_end:
  "\<not> pos < length dat \<Longrightarrow> nal_slices dat ub pos = [slice dat ub pos]"
  by (subst nal_slices.simps) simp

lemma nal_slices_none:
  "pos < length dat \<Longrightarrow> \<not> startsWith dat pos START_CODE_LONG \<Longrightarrow>
   \<not> startsWith dat pos START_CODE_SHORT \<Longrightarrow>
   nal_slices dat ub pos = nal_slices dat ub (pos + 1)"
  by (subst nal_slices.simps) simp

lemma nal_slices_long:
  "pos < length dat \<Longrightarrow> startsWith dat pos START_CODE_LONG \<Longrightarrow>
   nal_slices dat ub pos =
     (if pos \<noteq> 0 then [slice dat ub pos] else []) @ nal_slices dat (pos + 4) (pos + 4)"
  by (subst nal_slices.simps) simp

lemma nal_slices_short:
  "pos < length dat \<Longrightarrow> \<not> startsWith dat pos START_CODE_LONG \<Longrightarrow>
   startsWith dat pos START_CODE_SHORT \<Longrightarrow>
   nal_slices dat ub pos =
     (if pos \<noteq> 0 then [slice dat ub pos] else []) @ nal_slices dat (pos + 3) (pos + 3)"
  by (subst nal_slices.simps) simp

lemma scan_step:
  assumes IH: "\<And>cfs1 s1.
         (case scanUnit h dat p p cfs1 s1 of
            (Inl e, s2) \<Rightarrow> (Inl e, s2)
          | (Inr (ub1, pos1, cfs2), s2) \<Rightarrow> handleStartCode h dat ub1 pos1 cfs2 s2)
         = foldl (feed h) (Inr cfs1, s1) (nal_slices dat p p)"
  shows "(case (case (if pos \<noteq> 0 then handleStartCode h dat ub pos cfs s else (Inr cfs, s)) of
                  (Inl e, s1) \<Rightarrow> (Inl e, s1)
                | (Inr cfs1, s1) \<Rightarrow> scanUnit h dat p p cfs1 s1) of
            (Inl e, s1) \<Rightarrow> (Inl e, s1)
          | (Inr (ub1, pos1, cfs1), s1) \<Rightarrow> handleStartCode h dat ub1 pos1 cfs1 s1)
         = foldl (feed h) (Inr cfs, s)
             ((if pos \<noteq> 0 then [slice dat ub pos] else []) @ nal_slices dat p p)"
proof (cases "pos = 0")
  case True
  then show ?thesis using IH [of cfs s] by simp
next
  case False
  show ?thesis
  proof (cases "handleStartCode h dat ub pos cfs s")
    case (Pair r s1)
    show ?thesis
    proof (cases r)
      case (Inl e)
      with Pair False show ?thesis
        by (simp add: feed_Inr handleStartCode_slice [symmetric])
    next
      case (Inr cfs1)
      with Pair False IH [of cfs1 s1] show ?thesis
        by (simp add: feed_Inr handleStartCode_slice [symmetric])
    qed
  qed
qed

lemma scanUnit_fold:
  "(case scanUnit h dat ub pos cfs s of
      (Inl e, s1) \<Rightarrow> (Inl e, s1)
    | (Inr (ub1, pos1, cfs1), s1) \<Rightarrow> handleStartCode h dat ub1 pos1 cfs1 s1)
   = foldl (feed h) (Inr cfs, s) (nal_slices dat ub pos)"
proof (induction "length dat - pos" arbitrary: ub pos cfs s rule: less_induct)
  case less
  show ?case
  proof (cases "pos < length dat")
    case False
    then show ?thesis
      by (simp add: scanUnit_end nal_slices_end feed_Inr handleStartCode_slice [symmetric])
  next
    case inside: True
    show ?thesis
    proof (cases "startsWith dat pos START_CODE_LONG")
      case True
      have "length dat - (pos + 4) < length dat - pos" using inside by simp
      from scan_step [of h dat "pos + 4", OF less [OF this]]
      show ?thesis
        by (simp only: scanUnit_long [OF inside True] nal_slices_long [OF inside True])
    next
      case notlong: False
      show ?thesis
      proof (cases "startsWith dat pos START_CODE_SHORT")
        case True
        have "length dat - (pos + 3) < length dat - pos" using inside by simp
        from scan_step [of h dat "pos + 3", OF less [OF this]]
        show ?thesis
          by (simp only: scanUnit_short [OF inside notlong True]
                nal_slices_short [OF inside notlong True])
      next
        case False
        have "length dat - (pos + 1) < length dat - pos" using inside by simp
        from less [OF this, of ub cfs s] show ?thesis
          by (simp only: scanUnit_none [OF inside notlong False]
                nal_slices_none [OF inside notlong False])
      qed
    qed
  qed
qed

lemma sw_short:
  "startsWith buf p START_CODE_SHORT \<longleftrightarrow>
     p + 2 < length buf \<and> buf ! p = 0 \<and> buf ! (p + 1) = 0 \<and> buf ! (p + 2) = 1"
  by (auto simp: START_CODE_SHORT_def numeral_2_eq_2)

lemma sw_long:
  "startsWith buf p START_CODE_LONG \<longleftrightarrow>
     p + 3 < length buf \<and> buf ! p = 0 \<and> buf ! (p + 1) = 0 \<and> buf ! (p + 2) = 0 \<and> buf ! (p + 3) = 1"
  by (auto simp: START_CODE_LONG_def numeral_2_eq_2 numeral_3_eq_3)

lemma nal_ok_nth:
  assumes "nal_ok X" and "i + 2 < length X"
  shows "\<not> (X ! i = 0 \<and> X ! (i + 1) = 0 \<and> X ! (i + 2) = 1)"
proof -
  have "i \<in> set [0..<length X]" using assms(2) by simp
  with assms(1) have "\<not> startsWith X i START_CODE_SHORT"
    unfolding nal_ok_def list_all_iff by blast
  then show ?thesis using assms(2) by (simp add: sw_short)
qed

lemma nal_ok_last:
  assumes "nal_ok X"
  shows "X ! (length X - 1) \<noteq> 0" and "0 < length X"
  using assms by (auto simp: nal_ok_def last_conv_nth)

lemma nth_inside:
  "j < length X \<Longrightarrow> (pre @ X @ rest) ! (length pre + j) = X ! j"
  by (simp add: nth_append)

lemma no_code_in_nal:
  assumes ok: "nal_ok X" and i: "i < length X"
  shows "\<not> startsWith (pre @ X @ rest) (length pre + i) START_CODE_SHORT"
    and "\<not> startsWith (pre @ X @ rest) (length pre + i) START_CODE_LONG"
proof -
  let ?d = "pre @ X @ rest"
  note last = nal_ok_last [OF ok]
  show "\<not> startsWith ?d (length pre + i) START_CODE_SHORT"
  proof
    assume "startsWith ?d (length pre + i) START_CODE_SHORT"
    then have b: "?d ! (length pre + i) = 0" "?d ! (length pre + (i + 1)) = 0"
                 "?d ! (length pre + (i + 2)) = 1"
      by (simp_all add: sw_short add.assoc)
    show False
    proof (cases "i + 2 < length X")
      case True
      then have "X ! i = 0 \<and> X ! (i + 1) = 0 \<and> X ! (i + 2) = 1"
        using b nth_inside [of i X pre rest] nth_inside [of "i + 1" X pre rest]
              nth_inside [of "i + 2" X pre rest] by simp
      with nal_ok_nth [OF ok True] show False by simp
    next
      case False
      then have "length X - 1 = i \<or> length X - 1 = i + 1" using i by arith
      then have "X ! (length X - 1) = 0"
        using b nth_inside [of i X pre rest] nth_inside [of "i + 1" X pre rest] i False
        by (metis One_nat_def diff_less last(2) zero_less_one)
      with last show False by simp
    qed
  qed
  show "\<not> startsWith ?d (length pre + i) START_CODE_LONG"
  proof
    assume "startsWith ?d (length pre + i) START_CODE_LONG"
    then have b: "?d ! (length pre + i) = 0" "?d ! (length pre + (i + 1)) = 0"
                 "?d ! (length pre + (i + 2)) = 0" "?d ! (length pre + (i + 3)) = 1"
      by (simp_all add: sw_long add.assoc)
    show False
    proof (cases "i + 3 < length X")
      case True
      then have "X ! (i + 1) = 0 \<and> X ! (i + 1 + 1) = 0 \<and> X ! (i + 1 + 2) = 1"
        using b nth_inside [of "i + 1" X pre rest] nth_inside [of "i + 2" X pre rest]
              nth_inside [of "i + 3" X pre rest] by (simp add: add.assoc numeral_3_eq_3)
      moreover have "i + 1 + 2 < length X" using True by simp
      ultimately show False using nal_ok_nth [OF ok, of "i + 1"] by blast
    next
      case False
      then have "length X - 1 = i \<or> length X - 1 = i + 1 \<or> length X - 1 = i + 2"
        using i by arith
      then have "X ! (length X - 1) = 0"
        using b nth_inside [of i X pre rest] nth_inside [of "i + 1" X pre rest]
              nth_inside [of "i + 2" X pre rest] i False
        by (metis One_nat_def diff_less last(2) zero_less_one)
      with last show False by simp
    qed
  qed
qed

lemma skip_nal:
  assumes ok: "nal_ok X" and k: "k \<le> length X"
  shows "nal_slices (pre @ X @ rest) ub (length pre + (length X - k))
         = nal_slices (pre @ X @ rest) ub (length pre + length X)"
  using k
proof (induction k)
  case 0
  show ?case by simp
next
  case (Suc k)
  let ?i = "length X - Suc k"
  have i: "?i < length X" using Suc.prems by simp
  have inside: "length pre + ?i < length (pre @ X @ rest)" using i by simp
  have next_pos: "length pre + ?i + 1 = length pre + (length X - k)" using Suc.prems by simp
  have "nal_slices (pre @ X @ rest) ub (length pre + ?i)
          = nal_slices (pre @ X @ rest) ub (length pre + ?i + 1)"
    by (rule nal_slices_none [OF inside no_code_in_nal(2) [OF ok i] no_code_in_nal(1) [OF ok i]])
  also have "\<dots> = nal_slices (pre @ X @ rest) ub (length pre + length X)"
    unfolding next_pos using Suc by simp
  finally show ?case .
qed

lemma at_start_code:
  assumes c: "is_start_code c" and p: "length pre > 0"
  shows "nal_slices (pre @ c @ rest) ub (length pre)
         = slice (pre @ c @ rest) ub (length pre)
           # nal_slices (pre @ c @ rest) (length pre + length c) (length pre + length c)"
proof (cases "c = START_CODE_LONG")
  case True
  have sw: "startsWith (pre @ c @ rest) (length pre) START_CODE_LONG"
    unfolding True by (simp add: sw_long nth_append START_CODE_LONG_def)
  have inside: "length pre < length (pre @ c @ rest)"
    using True by (simp add: START_CODE_LONG_def)
  show ?thesis
    using nal_slices_long [OF inside sw, of ub] p True by (simp add: length_START_CODE_LONG)
next
  case False
  with c have short: "c = START_CODE_SHORT" by (simp add: is_start_code_def)
  have sw: "startsWith (pre @ c @ rest) (length pre) START_CODE_SHORT"
    unfolding short by (simp add: sw_short nth_append START_CODE_SHORT_def)
  have nl: "\<not> startsWith (pre @ c @ rest) (length pre) START_CODE_LONG"
    unfolding short by (simp add: sw_long nth_append START_CODE_SHORT_def)
  have inside: "length pre < length (pre @ c @ rest)"
    using short by (simp add: START_CODE_SHORT_def)
  show ?thesis
    using nal_slices_short [OF inside nl sw, of ub] p short by (simp add: length_START_CODE_SHORT)
qed

lemma at_first_start_code:
  assumes c: "is_start_code c"
  shows "nal_slices (c @ rest) 0 0 = nal_slices (c @ rest) (length c) (length c)"
proof (cases "c = START_CODE_LONG")
  case True
  have sw: "startsWith (c @ rest) 0 START_CODE_LONG"
    unfolding True by (simp add: sw_long nth_append START_CODE_LONG_def)
  have inside: "0 < length (c @ rest)"
    using True by (simp add: START_CODE_LONG_def)
  show ?thesis
    using nal_slices_long [OF inside sw, of 0] True by (simp add: length_START_CODE_LONG)
next
  case False
  with c have short: "c = START_CODE_SHORT" by (simp add: is_start_code_def)
  have sw: "startsWith (c @ rest) 0 START_CODE_SHORT"
    unfolding short by (simp add: sw_short nth_append START_CODE_SHORT_def)
  have nl: "\<not> startsWith (c @ rest) 0 START_CODE_LONG"
    unfolding short by (simp add: sw_long nth_append START_CODE_SHORT_def)
  have inside: "0 < length (c @ rest)"
    using short by (simp add: START_CODE_SHORT_def)
  show ?thesis
    using nal_slices_short [OF inside nl sw, of 0] short by (simp add: length_START_CODE_SHORT)
qed

lemma slices_from_nal:
  assumes "nal_ok X" and "\<forall>(c, Y) \<in> set rest. is_start_code c \<and> nal_ok Y"
  shows "nal_slices (pre @ X @ annexb rest) (length pre) (length pre) = X # map snd rest"
  using assms
proof (induction rest arbitrary: pre X)
  case Nil
  have "nal_slices (pre @ X @ []) (length pre) (length pre + (length X - length X))
          = nal_slices (pre @ X @ []) (length pre) (length pre + length X)"
    by (rule skip_nal [OF Nil(1)]) simp
  then show ?case
    by (simp add: nal_slices_end slice_def)
next
  case (Cons a rest)
  obtain c Y where a: "a = (c, Y)" by (cases a)
  from Cons.prems a have c: "is_start_code c" and Y: "nal_ok Y"
    and rest: "\<forall>(c, Y) \<in> set rest. is_start_code c \<and> nal_ok Y" by auto
  let ?d = "pre @ X @ c @ Y @ annexb rest"
  have skip: "nal_slices ?d (length pre) (length pre + (length X - length X))
          = nal_slices ?d (length pre) (length pre + length X)"
    by (rule skip_nal [OF Cons.prems(1)]) simp
  have pos: "length (pre @ X) > 0" using nal_ok_last(2) [OF Cons.prems(1)] by simp
  have at: "nal_slices ((pre @ X) @ c @ Y @ annexb rest) (length pre) (length (pre @ X))
          = slice ((pre @ X) @ c @ Y @ annexb rest) (length pre) (length (pre @ X))
            # nal_slices ((pre @ X) @ c @ Y @ annexb rest) (length (pre @ X) + length c)
                (length (pre @ X) + length c)"
    by (rule at_start_code [OF c pos])
  have IH: "nal_slices ((pre @ X @ c) @ Y @ annexb rest) (length (pre @ X @ c)) (length (pre @ X @ c))
          = Y # map snd rest"
    by (rule Cons.IH [OF Y rest])
  show ?case
    using skip at IH by (simp add: a slice_def add.assoc)
qed

lemma annexb_slices:
  assumes "is_start_code c" and "nal_ok X" and "\<forall>(c, Y) \<in> set rest. is_start_code c \<and> nal_ok Y"
  shows "nal_slices (annexb ((c, X) # rest)) 0 0 = X # map snd rest"
  using at_first_start_code [OF assms(1), of "X @ annexb rest"]
        slices_from_nal [OF assms(2) assms(3), of c]
  by simp

lemma size_prefix:
  "and_then (putU32 (ByteBuffer_new 4 False) (of_nat n) None)
     (\<lambda>sizeBuffer. u8set cf (getRemainingBuffer (flip sizeBuffer)) cfs)
   = u8set cf (be32 (of_nat n)) cfs"
  using writesD [OF writes_putU32, of "[]" "of_nat n" 4 "()"]
  by (simp add: ByteBuffer_new_fresh getRemainingBuffer_flip_fresh ToUint32_of_nat keep_def)

lemma take_write_at:
  "p + length bs \<le> length buf \<Longrightarrow> take (p + length bs) (write_at buf p bs) = take p buf @ bs"
  by (simp add: write_at_def)

lemma take_write_at_before:
  "q \<le> p \<Longrightarrow> p \<le> length buf \<Longrightarrow> take q (write_at buf p bs) = take q buf"
  by (simp add: write_at_def)

lemma checkFrameBufferSize_result:
  "\<exists>F. checkFrameBufferSize s cfs extra = Inr (s\<lparr>currentFrame := F\<rparr>)
       \<and> cfs + extra \<le> length F
       \<and> (cfs \<le> length (currentFrame s) \<longrightarrow> take cfs F = take cfs (currentFrame s))"
proof (cases "cfs + extra > length (currentFrame s)")
  case True
  then show ?thesis
    by (intro exI [of _ "write_at (replicate ((cfs + extra) * 2) 0) 0 (currentFrame s)"])
       (simp add: checkFrameBufferSize_def u8set_def write_at_def)
next
  case False
  then show ?thesis
    by (intro exI [of _ "currentFrame s"]) (simp add: checkFrameBufferSize_def)
qed

lemma handleStartCode_include:
  assumes h: "h s slc = (Inr True, s1)"
  shows "\<exists>F. handleStartCode h slc 0 (length slc) cfs s
               = (Inr (cfs + (length slc + 4)), s1\<lparr>currentFrame := F\<rparr>)
             \<and> cfs + (length slc + 4) \<le> length F
             \<and> (cfs \<le> length (currentFrame s1) \<longrightarrow>
                  take (cfs + (length slc + 4)) F
                    = take cfs (currentFrame s1) @ be32 (of_nat (length slc)) @ slc)"
proof -
  from checkFrameBufferSize_result [of s1 cfs "length slc + 4"]
  obtain F0 where F0: "checkFrameBufferSize s1 cfs (length slc + 4) = Inr (s1\<lparr>currentFrame := F0\<rparr>)"
    and len0: "cfs + (length slc + 4) \<le> length F0"
    and pre0: "cfs \<le> length (currentFrame s1) \<longrightarrow> take cfs F0 = take cfs (currentFrame s1)"
    by blast
  define F1 where "F1 = write_at F0 cfs (be32 (of_nat (length slc)))"
  define F2 where "F2 = write_at F1 (cfs + 4) slc"
  have len1: "length F1 = length F0" using len0 by (simp add: F1_def length_write_at)
  have len2: "length F2 = length F0" using len0 len1 by (simp add: F2_def length_write_at)
  have run: "handleStartCode h slc 0 (length slc) cfs s
               = (Inr (cfs + (length slc + 4)), s1\<lparr>currentFrame := F2\<rparr>)"
  proof -
    have u1: "u8set F0 (be32 (of_nat (length slc))) cfs = Inr F1"
      using len0 by (simp add: u8set_def F1_def)
    have u2: "u8set F1 slc (cfs + 4) = Inr F2"
      using len0 len1 by (simp add: u8set_def F2_def)
    show ?thesis
      using h F0 by (simp add: handleStartCode_def Let_def size_prefix u1 u2)
  qed
  have t1: "take (cfs + 4) F1 = take cfs F0 @ be32 (of_nat (length slc))"
    using take_write_at [of cfs "be32 (of_nat (length slc))" F0] len0 by (simp add: F1_def)
  have "take (cfs + 4 + length slc) F2 = take (cfs + 4) F1 @ slc"
    using take_write_at [of "cfs + 4" slc F1] len0 len1 by (simp add: F2_def)
  then have t2: "take (cfs + (length slc + 4)) F2 = take cfs F0 @ be32 (of_nat (length slc)) @ slc"
    using t1 by (simp add: add.commute add.left_commute)
  show ?thesis
    using run len0 len2 t2 pre0 by (intro exI [of _ F2]) simp
qed

lemma handleStartCode_exclude:
  "h s slc = (Inr False, s1) \<Longrightarrow> handleStartCode h slc 0 (length slc) cfs s = (Inr cfs, s1)"
  by (simp add: handleStartCode_def)

lemma handleStartCode_throw:
  "h s slc = (Inl e, s1) \<Longrightarrow> handleStartCode h slc 0 (length slc) cfs s = (Inl e, s1)"
  by (simp add: handleStartCode_def)

lemma submitDecodeUnit_fold:
  assumes "decoderConfig s \<noteq> None" and "startProcessChunk s unit"
  shows "submitDecodeUnit startProcessChunk h endChunk s unit =
     (case foldl (feed h) (Inr 0, s) (nal_slices (data unit) 0 0) of
        (Inl e, s2) \<Rightarrow> (Inl e, s2)
      | (Inr cfs, s2) \<Rightarrow>
          (case endChunk s2 of
             (Inl e, s3) \<Rightarrow> (Inl e, s3)
           | (Inr reconfigure, s3) \<Rightarrow>
               (Inr (Translated (if reconfigure then decoderConfig s3 else None)
                       (Some (slice (currentFrame s3) 0 cfs))), s3)))"
proof -
  note fold = scanUnit_fold [of h "data unit" 0 0 0 s, symmetric]
  show ?thesis
  proof (cases "scanUnit h (data unit) 0 0 0 s")
    case (Pair r s1)
    show ?thesis
    proof (cases r)
      case (Inl e)
      with Pair assms fold show ?thesis
        by (simp add: submitDecodeUnit_def)
    next
      case (Inr t)
      obtain ub pos cfs where t: "t = (ub, pos, cfs)" by (cases t)
      with Pair Inr assms fold show ?thesis
        by (simp add: submitDecodeUnit_def split: prod.splits sum.splits)
    qed
  qed
qed


section \<open>The H.264 translator on a unit with parameter sets\<close>

lemma u8_at_0: "X \<noteq> [] \<Longrightarrow> u8_at X 0 = hd X"
  by (cases X) (simp_all add: u8_at_def)

lemma h264_onChunkUnit_sps:
  assumes "h264NalType (hd S) = 7" and "4 \<le> length S" and "decoderConfig s = Some cfg"
  shows "h264_onChunkUnit s S
         = (Inr False,
            s\<lparr>H264StreamVideoTranslator.sps := Some S,
              decoderConfig :=
                Some (cfg\<lparr>codec := ''avc1.'' @ two_hex_digits (S ! 1) @ two_hex_digits (S ! 2)
                                   @ two_hex_digits (S ! 3)\<rparr>)\<rparr>)"
proof -
  from assms(2) obtain h p c l rest where S: "S = h # p # c # l # rest"
    by (cases S; cases "tl S"; cases "tl (tl S)"; cases "tl (tl (tl S))") auto
  show ?thesis
    using assms(1,3) unfolding S
    by (simp add: h264_onChunkUnit_def h264NalType_def u8_at_def Let_def h264ParseSps_bytes)
qed

lemma h264_onChunkUnit_pps:
  assumes "h264NalType (hd P) = 8" and "P \<noteq> []"
  shows "h264_onChunkUnit s P = (Inr False, s\<lparr>H264StreamVideoTranslator.pps := Some P\<rparr>)"
  using assms by (simp add: h264_onChunkUnit_def u8_at_0 Let_def)

lemma h264_onChunkUnit_other:
  assumes "h264NalType (u8_at X 0) \<noteq> 7" and "h264NalType (u8_at X 0) \<noteq> 8"
  shows "h264_onChunkUnit s X = (Inr True, s)"
  using assms by (simp add: h264_onChunkUnit_def Let_def)

lemma h264_endChunk_both:
  assumes "decoderConfig s = Some cfg" and "H264StreamVideoTranslator.pps s = Some P"
      and "H264StreamVideoTranslator.sps s = Some S" and "h264MakeAvcC S P = Inr d"
  shows "h264_endChunk s
         = (Inr True,
            s\<lparr>H264StreamVideoTranslator.sps := None, H264StreamVideoTranslator.pps := None,
              decoderConfig := Some (cfg\<lparr>description := Some d\<rparr>),
              H264StreamVideoTranslator.hasDescription := True\<rparr>)"
  using assms by (simp add: h264_endChunk_def)

lemma h264_submitDecodeUnit_sps_pps_idr:
  assumes codes: "is_start_code c1" "is_start_code c2" "is_start_code c3"
      and nals: "nal_ok S" "nal_ok P" "nal_ok I"
      and types: "h264NalType (hd S) = 7" "h264NalType (hd P) = 8" "h264NalType (hd I) = 5"
      and sps_len: "4 \<le> length S"
      and unit: "type unit = Key" "data unit = c1 @ S @ c2 @ P @ c3 @ I"
      and cfg: "decoderConfig s = Some cfg"
  shows "\<exists>cfg' s'.
           cfg' = cfg\<lparr>codec := ''avc1.'' @ two_hex_digits (S ! 1) @ two_hex_digits (S ! 2)
                                 @ two_hex_digits (S ! 3),
                       description :=
                         Some ([0x01, S ! 1, S ! 2, S ! 3, 0xFF, 0xE1,
                                of_nat (length S div 256), of_nat (length S) AND 0xff] @ S
                               @ [0x01, of_nat (length P div 256), of_nat (length P) AND 0xff] @ P
                               @ [0x00])\<rparr>
           \<and> h264_submitDecodeUnit s unit
               = (Inr (Translated (Some cfg') (Some (be32 (of_nat (length I)) @ I))), s')
           \<and> H264StreamVideoTranslator.hasDescription s'
           \<and> decoderConfig s' = Some cfg'
           \<and> H264StreamVideoTranslator.sps s' = None
           \<and> H264StreamVideoTranslator.pps s' = None"
proof -
  let ?d = "[0x01, S ! 1, S ! 2, S ! 3, 0xFF, 0xE1,
             of_nat (length S div 256), of_nat (length S) AND 0xff] @ S
            @ [0x01, of_nat (length P div 256), of_nat (length P) AND 0xff] @ P @ [0x00]"
  have d: "h264MakeAvcC S P = Inr ?d"
    using sps_len by (simp add: h264MakeAvcC_layout u8_at_def)
  let ?cfg1 = "cfg\<lparr>codec := ''avc1.'' @ two_hex_digits (S ! 1) @ two_hex_digits (S ! 2)
                               @ two_hex_digits (S ! 3)\<rparr>"
  let ?s1 = "s\<lparr>H264StreamVideoTranslator.sps := Some S, decoderConfig := Some ?cfg1\<rparr>"
  let ?s2 = "?s1\<lparr>H264StreamVideoTranslator.pps := Some P\<rparr>"
  have ne: "S \<noteq> []" "P \<noteq> []" "I \<noteq> []"
    using nals by (simp_all add: nal_ok_def)
  have slices: "nal_slices (data unit) 0 0 = [S, P, I]"
    using annexb_slices [OF codes(1) nals(1), of "[(c2, P), (c3, I)]"] codes nals
    by (simp add: unit)
  have f1: "feed h264_onChunkUnit (Inr 0, s) S = (Inr 0, ?s1)"
    using handleStartCode_exclude [where h = h264_onChunkUnit and s = s and slc = S and cfs = 0,
            OF h264_onChunkUnit_sps [OF types(1) sps_len cfg]]
    by (simp add: feed_Inr)
  have f2: "feed h264_onChunkUnit (Inr 0, ?s1) P = (Inr 0, ?s2)"
    using handleStartCode_exclude [where h = h264_onChunkUnit and s = ?s1 and slc = P and cfs = 0,
            OF h264_onChunkUnit_pps [OF types(2) ne(2), of ?s1]]
    by (simp add: feed_Inr)
  have other: "h264_onChunkUnit ?s2 I = (Inr True, ?s2)"
    using types(3) ne(3) by (intro h264_onChunkUnit_other) (simp_all add: u8_at_0)
  from handleStartCode_include [where h = h264_onChunkUnit and s = ?s2 and slc = I and cfs = 0,
         OF other]
  obtain F where f3: "feed h264_onChunkUnit (Inr 0, ?s2) I
                        = (Inr (length I + 4), ?s2\<lparr>currentFrame := F\<rparr>)"
    and chunk: "take (length I + 4) F = be32 (of_nat (length I)) @ I"
    by (auto simp: feed_Inr)
  let ?s3 = "?s2\<lparr>currentFrame := F\<rparr>"
  let ?cfg' = "?cfg1\<lparr>description := Some ?d\<rparr>"
  let ?s' = "?s3\<lparr>H264StreamVideoTranslator.sps := None, H264StreamVideoTranslator.pps := None,
               decoderConfig := Some ?cfg',
               H264StreamVideoTranslator.hasDescription := True\<rparr>"
  have e: "h264_endChunk ?s3 = (Inr True, ?s')"
    by (rule h264_endChunk_both [where P = P and S = S]) (simp_all add: d)
  have "h264_submitDecodeUnit s unit
          = (Inr (Translated (Some ?cfg') (Some (be32 (of_nat (length I)) @ I))), ?s')"
  proof -
    have fold: "foldl (feed h264_onChunkUnit) (Inr 0, s) (nal_slices (data unit) 0 0)
                  = (Inr (length I + 4), ?s3)"
      by (simp only: slices foldl.simps f1 f2 f3)
    have pre: "decoderConfig s \<noteq> None" "h264_startProcessChunk s unit"
      by (simp_all add: cfg h264_startProcessChunk_def unit(1))
    have sl: "slice (currentFrame ?s') 0 (length I + 4) = be32 (of_nat (length I)) @ I"
      using chunk by (simp add: slice_def)
    have dc: "decoderConfig ?s' = Some ?cfg'"
      by simp
    note sub = submitDecodeUnit_fold [where startProcessChunk = h264_startProcessChunk
        and h = h264_onChunkUnit and endChunk = h264_endChunk and s = s and unit = unit, OF pre]
    show ?thesis
      unfolding h264_submitDecodeUnit_def sub fold prod.case sum.case e if_True dc sl ..
  qed
  then show ?thesis
    by (intro exI [of _ ?cfg'] exI [of _ ?s']) simp
qed

text \<open>
  C1. A key unit that consists of an SPS, a PPS and an IDR slice, each after a start code
  of three or four bytes, is translated by the H.264 translator into the chunk made of
  the length of the slice as four big-endian bytes followed by the slice, with neither
  parameter set in it, together with a new configuration whose description is made of
  this SPS and this PPS, namely 01, the three profile bytes of the SPS, FF, E1, the
  length of the SPS in two bytes, the SPS, 01, the length of the PPS in two bytes, the
  PPS and a last byte 00, and whose codec string is read from the SPS; after the call the
  translator has a description and holds no pending parameter set. The SPS has at least
  the header byte and the three profile bytes.
\<close>

theorem h264_three_nal_keyframe:
  assumes codes: "is_start_code c1" "is_start_code c2" "is_start_code c3"
      and nals: "nal_ok S" "nal_ok P" "nal_ok I"
      and types: "h264NalType (hd S) = 7" "h264NalType (hd P) = 8" "h264NalType (hd I) = 5"
      and sps_len: "4 \<le> length S"
      and unit: "type unit = Key" "data unit = c1 @ S @ c2 @ P @ c3 @ I"
      and cfg: "decoderConfig s = Some cfg"
  shows "\<exists>cfg' s'.
           cfg' = cfg\<lparr>codec := ''avc1.'' @ two_hex_digits (S ! 1) @ two_hex_digits (S ! 2)
                                 @ two_hex_digits (S ! 3),
                       description :=
                         Some ([0x01, S ! 1, S ! 2, S ! 3, 0xFF, 0xE1,
                                of_nat (length S div 256), of_nat (length S) AND 0xff] @ S
                               @ [0x01, of_nat (length P div 256), of_nat (length P) AND 0xff] @ P
                               @ [0x00])\<rparr>
           \<and> h264_submitDecodeUnit s unit
               = (Inr (Translated (Some cfg') (Some (be32 (of_nat (length I)) @ I))), s')
           \<and> H264StreamVideoTranslator.hasDescription s'
           \<and> decoderConfig s' = Some cfg'
           \<and> H264StreamVideoTranslator.sps s' = None
           \<and> H264StreamVideoTranslator.pps s' = None"
  using assms by (rule h264_submitDecodeUnit_sps_pps_idr)

text \<open>
  The unit 00 00 00 01 67 42 E0 1E, 00 00 00 01 68 CE 3C 80, 00 00 01 65 88 84 gives the
  chunk 00 00 00 03 65 88 84 and a configuration with the codec \<open>avc1.42e01e\<close> and a
  description of 20 bytes.
\<close>

theorem h264_three_nal_keyframe_witness:
  "\<exists>cfg' s'.
     cfg' = \<lparr>codec = ''avc1.42e01e'',
              description = Some [0x01, 0x42, 0xE0, 0x1E, 0xFF, 0xE1, 0x00, 0x04,
                                  0x67, 0x42, 0xE0, 0x1E, 0x01, 0x00, 0x04,
                                  0x68, 0xCE, 0x3C, 0x80, 0x00],
              hardwareAcceleration = None, optimizeForLatency = None\<rparr>
     \<and> h264_submitDecodeUnit H264StreamVideoTranslator_new
          \<lparr>type = Key,
            data = [0, 0, 0, 1, 0x67, 0x42, 0xE0, 0x1E, 0, 0, 0, 1, 0x68, 0xCE, 0x3C, 0x80,
                    0, 0, 1, 0x65, 0x88, 0x84],
            timestampMicroseconds = 0, durationMicroseconds = 0\<rparr>
         = (Inr (Translated (Some cfg') (Some [0, 0, 0, 3, 0x65, 0x88, 0x84])), s')
     \<and> H264StreamVideoTranslator.hasDescription s'"
proof -
  have ok: "nal_ok [0x67, 0x42, 0xE0, 0x1E]" "nal_ok [0x68, 0xCE, 0x3C, 0x80]"
    "nal_ok [0x65, 0x88, 0x84]"
    by code_simp+
  have len: "be32 (of_nat (length [0x65, 0x88, 0x84 :: byte])) = [0, 0, 0, 3]"
    by code_simp
  have hex: "two_hex_digits 0x42 = ''42''" "two_hex_digits 0xE0 = ''e0''"
    "two_hex_digits 0x1E = ''1e''"
    by code_simp+
  show ?thesis
    using h264_three_nal_keyframe [of START_CODE_LONG START_CODE_LONG START_CODE_SHORT
        "[0x67, 0x42, 0xE0, 0x1E]" "[0x68, 0xCE, 0x3C, 0x80]" "[0x65, 0x88, 0x84]"
        "\<lparr>type = Key,
          data = [0, 0, 0, 1, 0x67, 0x42, 0xE0, 0x1E, 0, 0, 0, 1, 0x68, 0xCE, 0x3C, 0x80,
                  0, 0, 1, 0x65, 0x88, 0x84],
          timestampMicroseconds = 0, durationMicroseconds = 0\<rparr>"
        H264StreamVideoTranslator_new
        "\<lparr>codec = ''undefined'', description = None,
          hardwareAcceleration = None, optimizeForLatency = None\<rparr>"]
      ok len hex
    by (simp add: is_start_code_def h264NalType_def START_CODE_LONG_def START_CODE_SHORT_def
          H264StreamVideoTranslator_new_def) blast
qed


section \<open>The description latch of the translators\<close>

lemma length_store_seq [simp]: "length (store_seq d i vs) = length d"
  by (induction vs arbitrary: d i) simp_all

lemma u8set_fits:
  "off + length src \<le> length target \<Longrightarrow>
   \<exists>d. u8set target src off = Inr d \<and> length d = length target"
  by (simp add: u8set_def length_write_at)

lemma h265MakeHvcC_total: "\<exists>d. h265MakeHvcC v q p = Inr d"
proof -
  let ?n = "23 + (3 * 3) + (2 + length v) + (2 + length q) + (2 + length p)"
  let ?d1 = "store_seq (replicate ?n (0 :: byte)) 0
                 [1,
                  drop_bit 1 (u8_at q 1) AND 0x3f, 0, 0, 0, 0,
                  0, 0, 0, 0, 0, 0,
                  u8_at q 12,
                  0xF0, 0x00,
                  0xFC, 0xFD, 0xF8, 0xF8,
                  0x00, 0x00,
                  0x0F, 3,
                  0x20, 0, 1, of_nat (length v div 256), of_nat (length v) AND 0xff]"
  obtain d2 where d2: "u8set ?d1 v 28 = Inr d2" "length d2 = ?n"
    using u8set_fits [of 28 v ?d1] by (auto simp del: store_seq.simps)
  let ?d3 = "store_seq d2 (28 + length v)
               [0x21, 0, 1, of_nat (length q div 256), of_nat (length q) AND 0xff]"
  obtain d4 where d4: "u8set ?d3 q (28 + length v + 5) = Inr d4" "length d4 = ?n"
    using u8set_fits [of "28 + length v + 5" q ?d3] d2(2) by (auto simp del: store_seq.simps)
  let ?d5 = "store_seq d4 (28 + length v + 5 + length q)
               [0x22, 0, 1, of_nat (length p div 256), of_nat (length p) AND 0xff]"
  obtain d6 where d6: "u8set ?d5 p (28 + length v + 5 + length q + 5) = Inr d6"
    using u8set_fits [of "28 + length v + 5 + length q + 5" p ?d5] d4(2)
    by (auto simp del: store_seq.simps)
  show ?thesis
    unfolding h265MakeHvcC_def Let_def d2(1) and_then_Inr d4(1) d6 by blast
qed

lemma nal_slices_nonempty: "nal_slices dat ub pos \<noteq> []"
proof (induction "length dat - pos" arbitrary: ub pos rule: less_induct)
  case less
  show ?case
  proof (cases "pos < length dat")
    case False
    then show ?thesis by (simp add: nal_slices_end)
  next
    case True
    have IH: "\<And>ub1 k. 0 < k \<Longrightarrow> nal_slices dat ub1 (pos + k) \<noteq> []"
      using True by (intro less) simp
    show ?thesis
    proof (cases "startsWith dat pos START_CODE_LONG")
      case long: True
      show ?thesis using IH [of 4] by (simp add: nal_slices_long True long)
    next
      case nlong: False
      show ?thesis
      proof (cases "startsWith dat pos START_CODE_SHORT")
        case short: True
        show ?thesis using IH [of 3] by (simp add: nal_slices_short True nlong short)
      next
        case nshort: False
        show ?thesis using IH [of 1] by (simp add: nal_slices_none True nlong nshort)
      qed
    qed
  qed
qed

lemma handleStartCode_state:
  "\<exists>r F. handleStartCode h dat ub pos cfs s = (r, (snd (h s (slice dat ub pos)))\<lparr>currentFrame := F\<rparr>)"
proof -
  obtain r1 s1 where h: "h s (slice dat ub pos) = (r1, s1)"
    by (cases "h s (slice dat ub pos)")
  have s1: "s1 = s1\<lparr>currentFrame := currentFrame s1\<rparr>"
    by simp
  show ?thesis
    unfolding handleStartCode_def Let_def h
    by (auto simp: checkFrameBufferSize_def and_then_def
             split: sum.splits if_splits intro: s1)
qed

lemma foldl_feed_invariant:
  assumes hQ: "\<And>s X. Q s \<Longrightarrow> Q (snd (h s X))"
      and fQ: "\<And>s F. Q s \<Longrightarrow> Q (s\<lparr>currentFrame := F\<rparr>)"
  shows "Q s \<Longrightarrow> Q (snd (foldl (feed h) (r, s) xs))"
proof (induction xs arbitrary: r s)
  case Nil
  then show ?case by simp
next
  case (Cons X xs)
  show ?case
  proof (cases r)
    case (Inl e)
    show ?thesis using Cons.prems unfolding Inl foldl_feed_Inl by simp
  next
    case (Inr cfs)
    obtain r1 F where st: "handleStartCode h X 0 (length X) cfs s = (r1, (snd (h s X))\<lparr>currentFrame := F\<rparr>)"
      using handleStartCode_state [of h X 0 "length X" cfs s] by auto
    have "Q ((snd (h s X))\<lparr>currentFrame := F\<rparr>)"
      using Cons.prems by (intro fQ hQ)
    from Cons.IH [OF this, of r1] show ?thesis
      by (simp add: Inr feed_Inr st)
  qed
qed

lemma foldl_feed_include:
  assumes inc: "\<And>X s. X \<in> set xs \<Longrightarrow> h s X = (Inr True, s)"
  shows "\<exists>F cfs'. foldl (feed h) (Inr cfs, s\<lparr>currentFrame := F0\<rparr>) xs = (Inr cfs', s\<lparr>currentFrame := F\<rparr>)
            \<and> cfs + 4 * length xs \<le> cfs' \<and> (xs \<noteq> [] \<longrightarrow> cfs' \<le> length F)"
  using inc
proof (induction xs arbitrary: cfs F0)
  case Nil
  show ?case by (auto intro: exI [of _ F0])
next
  case (Cons X xs)
  have hX: "h (s\<lparr>currentFrame := F0\<rparr>) X = (Inr True, s\<lparr>currentFrame := F0\<rparr>)"
    by (rule Cons.prems) simp
  from handleStartCode_include [where h = h and s = "s\<lparr>currentFrame := F0\<rparr>" and slc = X and cfs = cfs, OF hX]
  obtain F1 where f1: "feed h (Inr cfs, s\<lparr>currentFrame := F0\<rparr>) X
                        = (Inr (cfs + (length X + 4)), s\<lparr>currentFrame := F1\<rparr>)"
    and len1: "cfs + (length X + 4) \<le> length F1"
    by (auto simp: feed_Inr)
  have "\<And>X s. X \<in> set xs \<Longrightarrow> h s X = (Inr True, s)"
    by (rule Cons.prems) simp
  from Cons.IH [OF this, of "cfs + (length X + 4)" F1]
  obtain F cfs' where r: "foldl (feed h) (Inr (cfs + (length X + 4)), s\<lparr>currentFrame := F1\<rparr>) xs
                            = (Inr cfs', s\<lparr>currentFrame := F\<rparr>)"
    and le: "cfs + (length X + 4) + 4 * length xs \<le> cfs'"
    and fl: "xs \<noteq> [] \<longrightarrow> cfs' \<le> length F"
    by blast
  have "cfs' \<le> length F"
  proof (cases xs)
    case Nil
    then show ?thesis using r len1 by (auto dest: arg_cong [where f = currentFrame])
  next
    case Cons
    then show ?thesis using fl by simp
  qed
  then show ?case
    using r le by (intro exI [of _ F] exI [of _ cfs']) (simp add: f1)
qed

lemma submitDecodeUnit_run:
  assumes "decoderConfig s \<noteq> None" and "startProcessChunk s unit"
  obtains
    (scan_throws) e s2 where
      "foldl (feed h) (Inr 0, s) (nal_slices (data unit) 0 0) = (Inl e, s2)"
      "submitDecodeUnit startProcessChunk h endChunk s unit = (Inl e, s2)"
  | (end_throws) cfs s2 e s3 where
      "foldl (feed h) (Inr 0, s) (nal_slices (data unit) 0 0) = (Inr cfs, s2)"
      "endChunk s2 = (Inl e, s3)"
      "submitDecodeUnit startProcessChunk h endChunk s unit = (Inl e, s3)"
  | (returns) cfs s2 reconfigure s3 where
      "foldl (feed h) (Inr 0, s) (nal_slices (data unit) 0 0) = (Inr cfs, s2)"
      "endChunk s2 = (Inr reconfigure, s3)"
      "submitDecodeUnit startProcessChunk h endChunk s unit
         = (Inr (Translated (if reconfigure then decoderConfig s3 else None)
                   (Some (slice (currentFrame s3) 0 cfs))), s3)"
proof -
  note sub = submitDecodeUnit_fold [where startProcessChunk = startProcessChunk and h = h
      and endChunk = endChunk and s = s and unit = unit, OF assms]
  obtain r2 s2 where f: "foldl (feed h) (Inr 0, s) (nal_slices (data unit) 0 0) = (r2, s2)"
    by (cases "foldl (feed h) (Inr 0, s) (nal_slices (data unit) 0 0)")
  show thesis
  proof (cases r2)
    case (Inl e)
    show thesis
      by (rule scan_throws [of e s2]) (simp_all add: sub f Inl)
  next
    case (Inr cfs)
    obtain r3 s3 where e: "endChunk s2 = (r3, s3)"
      by (cases "endChunk s2")
    show thesis
    proof (cases r3)
      case (Inl x)
      show thesis
        by (rule end_throws [of cfs s2 x s3]) (simp_all add: sub f Inr e Inl)
    next
      case rc: (Inr reconfigure)
      show thesis
        by (rule returns [of cfs s2 reconfigure s3]) (simp_all add: sub f Inr e rc)
    qed
  qed
qed

subsection \<open>H.264\<close>

lemma h264_onChunkUnit_hasDescription:
  "H264StreamVideoTranslator.hasDescription (snd (h264_onChunkUnit s X))
   = H264StreamVideoTranslator.hasDescription s"
  by (simp add: h264_onChunkUnit_def Let_def split: sum.splits)

lemma h264_endChunk_cases:
  assumes "h264_endChunk s = (r, s3)"
  shows "(r = Inr True \<and> H264StreamVideoTranslator.hasDescription s3
            \<and> H264StreamVideoTranslator.sps s3 = None \<and> H264StreamVideoTranslator.pps s3 = None
            \<and> decoderConfig s3 \<noteq> None \<and> currentFrame s3 = currentFrame s)
         \<or> (r \<noteq> Inr True \<and> s3 = s)"
  using assms
  by (auto simp: h264_endChunk_def h264MakeAvcC_layout split: option.splits)

lemma h264_endChunk_returns:
  "decoderConfig s \<noteq> None \<Longrightarrow> \<exists>rc s3. h264_endChunk s = (Inr rc, s3)"
  by (auto simp: h264_endChunk_def h264MakeAvcC_layout split: option.splits)

lemma h264_keep:
  assumes "H264StreamVideoTranslator.hasDescription s"
  shows "H264StreamVideoTranslator.hasDescription (snd (h264_submitDecodeUnit s unit))"
proof (cases "decoderConfig s \<noteq> None \<and> h264_startProcessChunk s unit")
  case False
  then show ?thesis
    using assms by (auto simp: h264_submitDecodeUnit_def submitDecodeUnit_def)
next
  case True
  have inv: "H264StreamVideoTranslator.hasDescription
               (snd (foldl (feed h264_onChunkUnit) (Inr 0, s) (nal_slices (data unit) 0 0)))"
    by (rule foldl_feed_invariant [where Q = H264StreamVideoTranslator.hasDescription])
       (simp_all add: h264_onChunkUnit_hasDescription assms)
  from True have pre: "decoderConfig s \<noteq> None" "h264_startProcessChunk s unit"
    by simp_all
  show ?thesis
  proof (cases rule: submitDecodeUnit_run [where h = h264_onChunkUnit and endChunk = h264_endChunk
        and startProcessChunk = h264_startProcessChunk and s = s and unit = unit, OF pre])
    case (1 e s2)
    then show ?thesis using inv by (simp add: h264_submitDecodeUnit_def)
  next
    case (2 cfs s2 e s3)
    then show ?thesis
      using inv h264_endChunk_cases [of s2 "Inl e" s3] by (simp add: h264_submitDecodeUnit_def)
  next
    case (3 cfs s2 reconfigure s3)
    then show ?thesis
      using inv h264_endChunk_cases [of s2 "Inr reconfigure" s3]
      by (auto simp: h264_submitDecodeUnit_def)
  qed
qed

lemma h264_configure:
  assumes "h264_submitDecodeUnit s unit = (Inr (Translated (Some cfg) c), s')"
  shows "H264StreamVideoTranslator.hasDescription s'
         \<and> H264StreamVideoTranslator.sps s' = None \<and> H264StreamVideoTranslator.pps s' = None
         \<and> c \<noteq> None"
proof (cases "decoderConfig s \<noteq> None \<and> h264_startProcessChunk s unit")
  case False
  then show ?thesis
    using assms by (auto simp: h264_submitDecodeUnit_def submitDecodeUnit_def split: if_splits)
next
  case True
  then have pre: "decoderConfig s \<noteq> None" "h264_startProcessChunk s unit"
    by simp_all
  show ?thesis
  proof (cases rule: submitDecodeUnit_run [where h = h264_onChunkUnit and endChunk = h264_endChunk
        and startProcessChunk = h264_startProcessChunk and s = s and unit = unit, OF pre])
    case (1 e s2)
    then show ?thesis using assms by (simp add: h264_submitDecodeUnit_def)
  next
    case (2 cfs s2 e s3)
    then show ?thesis using assms by (simp add: h264_submitDecodeUnit_def)
  next
    case (3 cfs s2 reconfigure s3)
    then show ?thesis
      using assms h264_endChunk_cases [of s2 "Inr reconfigure" s3]
      by (auto simp: h264_submitDecodeUnit_def split: if_splits)
  qed
qed

lemma h264_only:
  assumes "\<not> H264StreamVideoTranslator.hasDescription s"
      and "H264StreamVideoTranslator.hasDescription (snd (h264_submitDecodeUnit s unit))"
  shows "\<exists>cfg c. fst (h264_submitDecodeUnit s unit) = Inr (Translated (Some cfg) (Some c))"
proof (cases "decoderConfig s \<noteq> None \<and> h264_startProcessChunk s unit")
  case False
  then show ?thesis
    using assms by (auto simp: h264_submitDecodeUnit_def submitDecodeUnit_def split: if_splits)
next
  case True
  have inv: "\<not> H264StreamVideoTranslator.hasDescription
               (snd (foldl (feed h264_onChunkUnit) (Inr 0, s) (nal_slices (data unit) 0 0)))"
    by (rule foldl_feed_invariant [where Q = "\<lambda>s. \<not> H264StreamVideoTranslator.hasDescription s"])
       (simp_all add: h264_onChunkUnit_hasDescription assms)
  from True have pre: "decoderConfig s \<noteq> None" "h264_startProcessChunk s unit"
    by simp_all
  show ?thesis
  proof (cases rule: submitDecodeUnit_run [where h = h264_onChunkUnit and endChunk = h264_endChunk
        and startProcessChunk = h264_startProcessChunk and s = s and unit = unit, OF pre])
    case (1 e s2)
    then show ?thesis using inv assms(2) by (simp add: h264_submitDecodeUnit_def)
  next
    case (2 cfs s2 e s3)
    then show ?thesis
      using inv assms(2) h264_endChunk_cases [of s2 "Inl e" s3]
      by (simp add: h264_submitDecodeUnit_def)
  next
    case (3 cfs s2 reconfigure s3)
    then show ?thesis
      using inv assms(2) h264_endChunk_cases [of s2 "Inr reconfigure" s3]
      by (auto simp: h264_submitDecodeUnit_def)
  qed
qed

lemma h264_delta:
  assumes "\<not> H264StreamVideoTranslator.hasDescription s" and "type unit = Delta"
      and "decoderConfig s \<noteq> None"
  shows "h264_submitDecodeUnit s unit = (Inr (Translated None None), s)"
  using assms
  by (simp add: h264_submitDecodeUnit_def submitDecodeUnit_def h264_startProcessChunk_def)

lemma h264_without_sets:
  assumes hd: "H264StreamVideoTranslator.hasDescription s" and cfg: "decoderConfig s \<noteq> None"
      and no: "list_all (\<lambda>slc. \<not> (h264NalType (u8_at slc 0) = 7 \<or> h264NalType (u8_at slc 0) = 8))
                 (nal_slices (data unit) 0 0)"
  shows "\<exists>c chunk s'. h264_submitDecodeUnit s unit = (Inr (Translated c (Some chunk)), s')
                       \<and> chunk \<noteq> []"
proof -
  have inc: "\<And>X s. X \<in> set (nal_slices (data unit) 0 0) \<Longrightarrow> h264_onChunkUnit s X = (Inr True, s)"
    using no by (auto simp: list_all_iff intro!: h264_onChunkUnit_other)
  from foldl_feed_include [where h = h264_onChunkUnit and s = s and ?F0.0 = "currentFrame s"
        and cfs = 0 and xs = "nal_slices (data unit) 0 0", OF inc]
  obtain F cfs where f: "foldl (feed h264_onChunkUnit) (Inr 0, s) (nal_slices (data unit) 0 0)
                           = (Inr cfs, s\<lparr>currentFrame := F\<rparr>)"
    and le: "4 * length (nal_slices (data unit) 0 0) \<le> cfs" and fl: "cfs \<le> length F"
    using nal_slices_nonempty [of "data unit" 0 0] by auto
  have pos: "0 < cfs"
    using le nal_slices_nonempty [of "data unit" 0 0]
    by (cases "nal_slices (data unit) 0 0") simp_all
  have pre: "decoderConfig s \<noteq> None" "h264_startProcessChunk s unit"
    using hd cfg by (simp_all add: h264_startProcessChunk_def)
  show ?thesis
  proof (cases rule: submitDecodeUnit_run [where h = h264_onChunkUnit and endChunk = h264_endChunk
        and startProcessChunk = h264_startProcessChunk and s = s and unit = unit, OF pre])
    case (1 e s2)
    then show ?thesis using f by simp
  next
    case (2 cfs2 s2 e s3)
    then show ?thesis
      using f h264_endChunk_returns [of "s\<lparr>currentFrame := F\<rparr>"] cfg by auto
  next
    case returns: (3 cfs2 s2 reconfigure s3)
    then have eq: "cfs2 = cfs" "s2 = s\<lparr>currentFrame := F\<rparr>"
      using f by simp_all
    have "currentFrame s3 = F"
      using h264_endChunk_cases [of s2 "Inr reconfigure" s3] returns(2) eq by auto
    then have "slice (currentFrame s3) 0 cfs2 \<noteq> []"
      using pos fl eq by (auto simp: slice_def)
    then show ?thesis
      using returns(3) by (simp add: h264_submitDecodeUnit_def)
  qed
qed

subsection \<open>H.265\<close>

lemma h265_onChunkUnit_other:
  assumes "h265NalType (u8_at X 0) \<noteq> 32" and "h265NalType (u8_at X 0) \<noteq> 33"
      and "h265NalType (u8_at X 0) \<noteq> 34"
  shows "h265_onChunkUnit s X = (Inr True, s)"
  using assms by (simp add: h265_onChunkUnit_def Let_def)

lemma h265_onChunkUnit_hasDescription:
  "H265StreamVideoTranslator.hasDescription (snd (h265_onChunkUnit s X))
   = H265StreamVideoTranslator.hasDescription s"
  by (simp add: h265_onChunkUnit_def Let_def split: sum.splits)

lemma h265_endChunk_all:
  assumes "decoderConfig s = Some cfg" and "H265StreamVideoTranslator.vps s = Some v"
      and "H265StreamVideoTranslator.sps s = Some q" and "H265StreamVideoTranslator.pps s = Some p"
  shows "\<exists>d. h265_endChunk s
               = (Inr True,
                  s\<lparr>decoderConfig := Some (cfg\<lparr>description := Some d\<rparr>),
                    H265StreamVideoTranslator.vps := None, H265StreamVideoTranslator.sps := None,
                    H265StreamVideoTranslator.pps := None,
                    H265StreamVideoTranslator.hasDescription := True\<rparr>)"
proof -
  obtain d where "h265MakeHvcC v q p = Inr d"
    using h265MakeHvcC_total by blast
  then show ?thesis
    using assms by (intro exI [of _ d]) (simp add: h265_endChunk_def)
qed

lemma h265_endChunk_missing:
  assumes "decoderConfig s = Some cfg"
      and "H265StreamVideoTranslator.vps s = None \<or> H265StreamVideoTranslator.sps s = None
           \<or> H265StreamVideoTranslator.pps s = None"
  shows "h265_endChunk s = (Inr False, s)"
  using assms by (auto simp: h265_endChunk_def split: option.splits)

lemma h265_endChunk_None:
  "decoderConfig s = None \<Longrightarrow> h265_endChunk s = (Inl (Throw ''UNREACHABLE''), s)"
  by (simp add: h265_endChunk_def)

lemma h265_endChunk_cases:
  assumes "h265_endChunk s = (r, s3)"
  shows "(r = Inr True \<and> H265StreamVideoTranslator.hasDescription s3
            \<and> H265StreamVideoTranslator.vps s3 = None \<and> H265StreamVideoTranslator.sps s3 = None
            \<and> H265StreamVideoTranslator.pps s3 = None
            \<and> decoderConfig s3 \<noteq> None \<and> currentFrame s3 = currentFrame s)
         \<or> (r \<noteq> Inr True \<and> s3 = s)"
proof (cases "decoderConfig s")
  case None
  then show ?thesis using assms by (auto simp: h265_endChunk_None)
next
  case (Some cfg)
  show ?thesis
  proof (cases "H265StreamVideoTranslator.vps s = None \<or> H265StreamVideoTranslator.sps s = None
           \<or> H265StreamVideoTranslator.pps s = None")
    case True
    then show ?thesis using assms h265_endChunk_missing [OF Some True] by auto
  next
    case False
    then obtain v q p where "H265StreamVideoTranslator.vps s = Some v"
      "H265StreamVideoTranslator.sps s = Some q" "H265StreamVideoTranslator.pps s = Some p"
      by auto
    from h265_endChunk_all [OF Some this] show ?thesis
      using assms by auto
  qed
qed

lemma h265_endChunk_returns:
  assumes "decoderConfig s \<noteq> None"
  shows "\<exists>rc s3. h265_endChunk s = (Inr rc, s3)"
proof -
  from assms obtain cfg where Some: "decoderConfig s = Some cfg"
    by auto
  show ?thesis
  proof (cases "H265StreamVideoTranslator.vps s = None \<or> H265StreamVideoTranslator.sps s = None
           \<or> H265StreamVideoTranslator.pps s = None")
    case True
    then show ?thesis using h265_endChunk_missing [OF Some True] by blast
  next
    case False
    then obtain v q p where "H265StreamVideoTranslator.vps s = Some v"
      "H265StreamVideoTranslator.sps s = Some q" "H265StreamVideoTranslator.pps s = Some p"
      by auto
    from h265_endChunk_all [OF Some this] show ?thesis
      by auto
  qed
qed

lemma h265_keep:
  assumes "H265StreamVideoTranslator.hasDescription s"
  shows "H265StreamVideoTranslator.hasDescription (snd (h265_submitDecodeUnit s unit))"
proof (cases "decoderConfig s \<noteq> None \<and> h265_startProcessChunk s unit")
  case False
  then show ?thesis
    using assms by (auto simp: h265_submitDecodeUnit_def submitDecodeUnit_def)
next
  case True
  have inv: "H265StreamVideoTranslator.hasDescription
               (snd (foldl (feed h265_onChunkUnit) (Inr 0, s) (nal_slices (data unit) 0 0)))"
    by (rule foldl_feed_invariant [where Q = H265StreamVideoTranslator.hasDescription])
       (simp_all add: h265_onChunkUnit_hasDescription assms)
  from True have pre: "decoderConfig s \<noteq> None" "h265_startProcessChunk s unit"
    by simp_all
  show ?thesis
  proof (cases rule: submitDecodeUnit_run [where h = h265_onChunkUnit and endChunk = h265_endChunk
        and startProcessChunk = h265_startProcessChunk and s = s and unit = unit, OF pre])
    case (1 e s2)
    then show ?thesis using inv by (simp add: h265_submitDecodeUnit_def)
  next
    case (2 cfs s2 e s3)
    then show ?thesis
      using inv h265_endChunk_cases [of s2 "Inl e" s3] by (simp add: h265_submitDecodeUnit_def)
  next
    case (3 cfs s2 reconfigure s3)
    then show ?thesis
      using inv h265_endChunk_cases [of s2 "Inr reconfigure" s3]
      by (auto simp: h265_submitDecodeUnit_def)
  qed
qed

lemma h265_configure:
  assumes "h265_submitDecodeUnit s unit = (Inr (Translated (Some cfg) c), s')"
  shows "H265StreamVideoTranslator.hasDescription s'
         \<and> H265StreamVideoTranslator.vps s' = None \<and> H265StreamVideoTranslator.sps s' = None
         \<and> H265StreamVideoTranslator.pps s' = None
         \<and> c \<noteq> None"
proof (cases "decoderConfig s \<noteq> None \<and> h265_startProcessChunk s unit")
  case False
  then show ?thesis
    using assms by (auto simp: h265_submitDecodeUnit_def submitDecodeUnit_def split: if_splits)
next
  case True
  then have pre: "decoderConfig s \<noteq> None" "h265_startProcessChunk s unit"
    by simp_all
  show ?thesis
  proof (cases rule: submitDecodeUnit_run [where h = h265_onChunkUnit and endChunk = h265_endChunk
        and startProcessChunk = h265_startProcessChunk and s = s and unit = unit, OF pre])
    case (1 e s2)
    then show ?thesis using assms by (simp add: h265_submitDecodeUnit_def)
  next
    case (2 cfs s2 e s3)
    then show ?thesis using assms by (simp add: h265_submitDecodeUnit_def)
  next
    case (3 cfs s2 reconfigure s3)
    then show ?thesis
      using assms h265_endChunk_cases [of s2 "Inr reconfigure" s3]
      by (auto simp: h265_submitDecodeUnit_def split: if_splits)
  qed
qed

lemma h265_only:
  assumes "\<not> H265StreamVideoTranslator.hasDescription s"
      and "H265StreamVideoTranslator.hasDescription (snd (h265_submitDecodeUnit s unit))"
  shows "\<exists>cfg c. fst (h265_submitDecodeUnit s unit) = Inr (Translated (Some cfg) (Some c))"
proof (cases "decoderConfig s \<noteq> None \<and> h265_startProcessChunk s unit")
  case False
  then show ?thesis
    using assms by (auto simp: h265_submitDecodeUnit_def submitDecodeUnit_def split: if_splits)
next
  case True
  have inv: "\<not> H265StreamVideoTranslator.hasDescription
               (snd (foldl (feed h265_onChunkUnit) (Inr 0, s) (nal_slices (data unit) 0 0)))"
    by (rule foldl_feed_invariant [where Q = "\<lambda>s. \<not> H265StreamVideoTranslator.hasDescription s"])
       (simp_all add: h265_onChunkUnit_hasDescription assms)
  from True have pre: "decoderConfig s \<noteq> None" "h265_startProcessChunk s unit"
    by simp_all
  show ?thesis
  proof (cases rule: submitDecodeUnit_run [where h = h265_onChunkUnit and endChunk = h265_endChunk
        and startProcessChunk = h265_startProcessChunk and s = s and unit = unit, OF pre])
    case (1 e s2)
    then show ?thesis using inv assms(2) by (simp add: h265_submitDecodeUnit_def)
  next
    case (2 cfs s2 e s3)
    then show ?thesis
      using inv assms(2) h265_endChunk_cases [of s2 "Inl e" s3]
      by (simp add: h265_submitDecodeUnit_def)
  next
    case (3 cfs s2 reconfigure s3)
    then show ?thesis
      using inv assms(2) h265_endChunk_cases [of s2 "Inr reconfigure" s3]
      by (auto simp: h265_submitDecodeUnit_def)
  qed
qed

lemma h265_delta:
  assumes "\<not> H265StreamVideoTranslator.hasDescription s" and "type unit = Delta"
      and "decoderConfig s \<noteq> None"
  shows "h265_submitDecodeUnit s unit = (Inr (Translated None None), s)"
  using assms
  by (simp add: h265_submitDecodeUnit_def submitDecodeUnit_def h265_startProcessChunk_def)

lemma h265_without_sets:
  assumes hd: "H265StreamVideoTranslator.hasDescription s" and cfg: "decoderConfig s \<noteq> None"
      and no: "list_all (\<lambda>slc. \<not> (h265NalType (u8_at slc 0) = 32 \<or> h265NalType (u8_at slc 0) = 33
                                 \<or> h265NalType (u8_at slc 0) = 34))
                 (nal_slices (data unit) 0 0)"
  shows "\<exists>c chunk s'. h265_submitDecodeUnit s unit = (Inr (Translated c (Some chunk)), s')
                       \<and> chunk \<noteq> []"
proof -
  have inc: "\<And>X s. X \<in> set (nal_slices (data unit) 0 0) \<Longrightarrow> h265_onChunkUnit s X = (Inr True, s)"
    using no by (auto simp: list_all_iff intro!: h265_onChunkUnit_other)
  from foldl_feed_include [where h = h265_onChunkUnit and s = s and ?F0.0 = "currentFrame s"
        and cfs = 0 and xs = "nal_slices (data unit) 0 0", OF inc]
  obtain F cfs where f: "foldl (feed h265_onChunkUnit) (Inr 0, s) (nal_slices (data unit) 0 0)
                           = (Inr cfs, s\<lparr>currentFrame := F\<rparr>)"
    and le: "4 * length (nal_slices (data unit) 0 0) \<le> cfs" and fl: "cfs \<le> length F"
    using nal_slices_nonempty [of "data unit" 0 0] by auto
  have pos: "0 < cfs"
    using le nal_slices_nonempty [of "data unit" 0 0]
    by (cases "nal_slices (data unit) 0 0") simp_all
  have pre: "decoderConfig s \<noteq> None" "h265_startProcessChunk s unit"
    using hd cfg by (simp_all add: h265_startProcessChunk_def)
  show ?thesis
  proof (cases rule: submitDecodeUnit_run [where h = h265_onChunkUnit and endChunk = h265_endChunk
        and startProcessChunk = h265_startProcessChunk and s = s and unit = unit, OF pre])
    case (1 e s2)
    then show ?thesis using f by simp
  next
    case (2 cfs2 s2 e s3)
    then show ?thesis
      using f h265_endChunk_returns [of "s\<lparr>currentFrame := F\<rparr>"] cfg by auto
  next
    case returns: (3 cfs2 s2 reconfigure s3)
    then have eq: "cfs2 = cfs" "s2 = s\<lparr>currentFrame := F\<rparr>"
      using f by simp_all
    have "currentFrame s3 = F"
      using h265_endChunk_cases [of s2 "Inr reconfigure" s3] returns(2) eq by auto
    then have "slice (currentFrame s3) 0 cfs2 \<noteq> []"
      using pos fl eq by (auto simp: slice_def)
    then show ?thesis
      using returns(3) by (simp add: h265_submitDecodeUnit_def)
  qed
qed

subsection \<open>Parameter sets across a scan\<close>

lemma length_prefixed_Nil [simp]: "length_prefixed [] = []"
  by (simp add: length_prefixed_def)

lemma length_prefixed_Cons [simp]:
  "length_prefixed (X # xs) = be32 (of_nat (length X)) @ X @ length_prefixed xs"
  by (simp add: length_prefixed_def)

lemma foldl_snd_currentFrame:
  assumes comm: "\<And>s X F. snd (h (s\<lparr>currentFrame := F\<rparr>) X) = (snd (h s X))\<lparr>currentFrame := F\<rparr>"
  shows "foldl (\<lambda>s X. snd (h s X)) (s\<lparr>currentFrame := F\<rparr>) xs
         = (foldl (\<lambda>s X. snd (h s X)) s xs)\<lparr>currentFrame := F\<rparr>"
  by (induction xs arbitrary: s) (simp_all add: comm)

lemma snd_currentFrame:
  assumes comm: "\<And>s X F. snd (h (s\<lparr>currentFrame := F\<rparr>) X) = (snd (h s X))\<lparr>currentFrame := F\<rparr>"
  shows "currentFrame (snd (h s X)) = currentFrame s"
proof -
  have "snd (h s X) = snd (h (s\<lparr>currentFrame := currentFrame s\<rparr>) X)"
    by simp
  also have "\<dots> = (snd (h s X))\<lparr>currentFrame := currentFrame s\<rparr>"
    by (rule comm)
  finally have "currentFrame (snd (h s X)) = currentFrame ((snd (h s X))\<lparr>currentFrame := currentFrame s\<rparr>)"
    by (rule arg_cong)
  then show ?thesis by simp
qed

lemma foldl_feed_run:
  assumes inc: "\<And>s X. X \<in> set xs \<Longrightarrow> fst (h s X) = Inr (inc X)"
      and comm: "\<And>s X F. snd (h (s\<lparr>currentFrame := F\<rparr>) X) = (snd (h s X))\<lparr>currentFrame := F\<rparr>"
      and le: "cfs \<le> length (currentFrame s)"
  shows "\<exists>F. foldl (feed h) (Inr cfs, s) xs
               = (Inr (cfs + length (length_prefixed (filter inc xs))),
                  (foldl (\<lambda>s X. snd (h s X)) s xs)\<lparr>currentFrame := F\<rparr>)
             \<and> cfs + length (length_prefixed (filter inc xs)) \<le> length F
             \<and> take (cfs + length (length_prefixed (filter inc xs))) F
                 = take cfs (currentFrame s) @ length_prefixed (filter inc xs)"
  using inc le
proof (induction xs arbitrary: cfs s)
  case Nil
  show ?case
    using Nil.prems(2) by (intro exI [of _ "currentFrame s"]) simp
next
  case (Cons X xs)
  have incX: "fst (h s X) = Inr (inc X)"
    by (rule Cons.prems(1)) simp
  have inc': "\<And>s Y. Y \<in> set xs \<Longrightarrow> fst (h s Y) = Inr (inc Y)"
    by (rule Cons.prems(1)) simp
  let ?s1 = "snd (h s X)"
  have hX: "h s X = (Inr (inc X), ?s1)"
    using incX by (cases "h s X") simp
  have cf1: "currentFrame ?s1 = currentFrame s"
    by (rule snd_currentFrame [OF comm])
  show ?case
  proof (cases "inc X")
    case False
    have f1: "feed h (Inr cfs, s) X = (Inr cfs, ?s1)"
      using handleStartCode_exclude [where h = h and s = s and slc = X and cfs = cfs and ?s1.0 = ?s1]
        hX False by (simp add: feed_Inr)
    from Cons.IH [OF inc', of cfs ?s1] Cons.prems(2)
    show ?thesis
      by (simp add: f1 False cf1)
  next
    case True
    have hX': "h s X = (Inr True, ?s1)"
      using hX True by simp
    from handleStartCode_include [where h = h and s = s and slc = X and cfs = cfs, OF hX']
    obtain F1 where f1: "feed h (Inr cfs, s) X
                           = (Inr (cfs + (length X + 4)), ?s1\<lparr>currentFrame := F1\<rparr>)"
      and len1: "cfs + (length X + 4) \<le> length F1"
      and pre1: "take (cfs + (length X + 4)) F1
                   = take cfs (currentFrame s) @ be32 (of_nat (length X)) @ X"
      using Cons.prems(2) by (auto simp: feed_Inr cf1)
    let ?n = "length (length_prefixed (filter inc xs))"
    from Cons.IH [OF inc', of "cfs + (length X + 4)" "?s1\<lparr>currentFrame := F1\<rparr>"] len1
    obtain F where
      r: "foldl (feed h) (Inr (cfs + (length X + 4)), ?s1\<lparr>currentFrame := F1\<rparr>) xs
            = (Inr (cfs + (length X + 4) + ?n),
               (foldl (\<lambda>s X. snd (h s X)) (?s1\<lparr>currentFrame := F1\<rparr>) xs)\<lparr>currentFrame := F\<rparr>)"
      and len: "cfs + (length X + 4) + ?n \<le> length F"
      and pre: "take (cfs + (length X + 4) + ?n) F
                  = take (cfs + (length X + 4)) F1 @ length_prefixed (filter inc xs)"
      by auto
    have st: "(foldl (\<lambda>s X. snd (h s X)) (?s1\<lparr>currentFrame := F1\<rparr>) xs)\<lparr>currentFrame := F\<rparr>
              = (foldl (\<lambda>s X. snd (h s X)) ?s1 xs)\<lparr>currentFrame := F\<rparr>"
      by (simp add: foldl_snd_currentFrame [OF comm])
    have n: "length (length_prefixed (filter inc (X # xs))) = length X + 4 + ?n"
      using True by simp
    show ?thesis
      apply (rule exI [of _ F])
      unfolding n
      using r len pre
      by (simp add: f1 st pre1 True add.assoc)
  qed
qed

lemma store_seq_fill:
  "length pre = p \<Longrightarrow> length vs \<le> k \<Longrightarrow>
   store_seq (fill pre k) p vs = fill (pre @ vs) (k - length vs)"
proof (induction vs arbitrary: pre p k)
  case Nil
  then show ?case by simp
next
  case (Cons v vs)
  have "store_seq (fill pre k) p (v # vs) = store_seq (fill (pre @ [v]) (k - 1)) (Suc p) vs"
    using Cons.prems by (simp add: fill_update)
  also have "\<dots> = fill ((pre @ [v]) @ vs) (k - 1 - length vs)"
    using Cons.prems by (intro Cons.IH) simp_all
  finally show ?case by simp
qed

lemma u8set_fill:
  "length pre = p \<Longrightarrow> length bs \<le> k \<Longrightarrow>
   u8set (fill pre k) bs p = Inr (fill (pre @ bs) (k - length bs))"
  by (simp add: u8set_def length_fill fill_write_at)

lemma h265MakeHvcC_layout: "h265MakeHvcC V S P = Inr (hvcC_record V S P)"
proof -
  let ?h = "[1, drop_bit 1 (u8_at S 1) AND 0x3f, 0, 0, 0, 0, 0, 0, 0, 0, 0, 0, u8_at S 12,
             0xF0, 0x00, 0xFC, 0xFD, 0xF8, 0xF8, 0x00, 0x00, 0x0F, 3,
             0x20, 0, 1, of_nat (length V div 256), of_nat (length V) AND 0xff] :: byte list"
  let ?a = "[0x21, 0, 1, of_nat (length S div 256), of_nat (length S) AND 0xff] :: byte list"
  let ?b = "[0x22, 0, 1, of_nat (length P div 256), of_nat (length P) AND 0xff] :: byte list"
  let ?n = "23 + (3 * 3) + (2 + length V) + (2 + length S) + (2 + length P)"
  have 1: "store_seq (replicate ?n 0) 0 ?h = fill ?h (10 + length V + length S + length P)"
    unfolding replicate_fill
    by (subst store_seq_fill [where p = 0]) (simp_all add: add.assoc)
  have 2: "u8set (fill ?h (10 + length V + length S + length P)) V 28
             = Inr (fill (?h @ V) (10 + length S + length P))"
    by (subst u8set_fill) (simp_all add: add.assoc)
  have 3: "store_seq (fill (?h @ V) (10 + length S + length P)) (28 + length V) ?a
             = fill (?h @ V @ ?a) (5 + length S + length P)"
    by (subst store_seq_fill) (simp_all add: add.assoc)
  have 4: "u8set (fill (?h @ V @ ?a) (5 + length S + length P)) S (28 + length V + 5)
             = Inr (fill (?h @ V @ ?a @ S) (5 + length P))"
    by (subst u8set_fill) (simp_all add: add.assoc)
  have 5: "store_seq (fill (?h @ V @ ?a @ S) (5 + length P)) (28 + length V + 5 + length S) ?b
             = fill (?h @ V @ ?a @ S @ ?b) (length P)"
    by (subst store_seq_fill) (simp_all add: add.assoc)
  have 6: "u8set (fill (?h @ V @ ?a @ S @ ?b) (length P)) P (28 + length V + 5 + length S + 5)
             = Inr (fill (?h @ V @ ?a @ S @ ?b @ P) 0)"
    by (subst u8set_fill) (simp_all add: add.assoc)
  have 7: "fill (?h @ V @ ?a @ S @ ?b @ P) 0 = hvcC_record V S P"
    by (simp add: fill_def hvcC_record_def)
  show ?thesis
    unfolding h265MakeHvcC_def Let_def 1 2 and_then_Inr 3 4 5 6 7 ..
qed

lemma submitDecodeUnit_scan:
  assumes cfg: "decoderConfig s \<noteq> None" and sp: "startProcessChunk s unit"
      and inc: "\<And>s X. X \<in> set (nal_slices (data unit) 0 0) \<Longrightarrow> fst (h s X) = Inr (inc X)"
      and comm: "\<And>s X F. snd (h (s\<lparr>currentFrame := F\<rparr>) X) = (snd (h s X))\<lparr>currentFrame := F\<rparr>"
  shows "\<exists>F. take (length (length_prefixed (filter inc (nal_slices (data unit) 0 0)))) F
               = length_prefixed (filter inc (nal_slices (data unit) 0 0))
           \<and> submitDecodeUnit startProcessChunk h endChunk s unit
               = (case endChunk ((foldl (\<lambda>s X. snd (h s X)) s (nal_slices (data unit) 0 0))
                                   \<lparr>currentFrame := F\<rparr>) of
                    (Inl e, s3) \<Rightarrow> (Inl e, s3)
                  | (Inr reconfigure, s3) \<Rightarrow>
                      (Inr (Translated (if reconfigure then decoderConfig s3 else None)
                              (Some (slice (currentFrame s3) 0
                                 (length (length_prefixed (filter inc (nal_slices (data unit) 0 0))))))),
                       s3))"
proof -
  from foldl_feed_run [where h = h and inc = inc and xs = "nal_slices (data unit) 0 0"
        and cfs = 0 and s = s, OF inc comm]
  obtain F where
    f: "foldl (feed h) (Inr 0, s) (nal_slices (data unit) 0 0)
          = (Inr (length (length_prefixed (filter inc (nal_slices (data unit) 0 0)))),
             (foldl (\<lambda>s X. snd (h s X)) s (nal_slices (data unit) 0 0))\<lparr>currentFrame := F\<rparr>)"
    and pre: "take (length (length_prefixed (filter inc (nal_slices (data unit) 0 0)))) F
                = length_prefixed (filter inc (nal_slices (data unit) 0 0))"
    by auto
  note sub = submitDecodeUnit_fold [where startProcessChunk = startProcessChunk and h = h
      and endChunk = endChunk and s = s and unit = unit, OF cfg sp]
  show ?thesis
    by (rule exI [of _ F]) (simp add: pre sub f)
qed

lemma h264_onChunkUnit_comm:
  "snd (h264_onChunkUnit (s\<lparr>currentFrame := F\<rparr>) X) = (snd (h264_onChunkUnit s X))\<lparr>currentFrame := F\<rparr>"
  by (simp add: h264_onChunkUnit_def Let_def split: sum.splits)

lemma h264_onChunkUnit_include:
  assumes "h264NalType (u8_at X 0) = 7 \<longrightarrow> 4 \<le> length X"
  shows "fst (h264_onChunkUnit s X)
         = Inr (\<not> (h264NalType (u8_at X 0) = 7 \<or> h264NalType (u8_at X 0) = 8))"
proof (cases "h264NalType (u8_at X 0) = 7")
  case False
  then show ?thesis by (simp add: h264_onChunkUnit_def Let_def)
next
  case True
  with assms obtain h p c l rest where X: "X = h # p # c # l # rest"
    by (cases X; cases "tl X"; cases "tl (tl X)"; cases "tl (tl (tl X))") auto
  show ?thesis
    using True unfolding X
    by (simp add: h264_onChunkUnit_def h264NalType_def u8_at_def Let_def h264ParseSps_bytes)
qed

lemma h264_onChunkUnit_fields:
  "H264StreamVideoTranslator.sps (snd (h264_onChunkUnit s X))
     = (if h264NalType (u8_at X 0) = 7 then Some X else H264StreamVideoTranslator.sps s)"
  "H264StreamVideoTranslator.pps (snd (h264_onChunkUnit s X))
     = (if h264NalType (u8_at X 0) = 8 then Some X else H264StreamVideoTranslator.pps s)"
  "decoderConfig s \<noteq> None \<Longrightarrow> decoderConfig (snd (h264_onChunkUnit s X)) \<noteq> None"
  by (auto simp: h264_onChunkUnit_def Let_def split: sum.splits)

lemma h264_scan_fields:
  "H264StreamVideoTranslator.sps (foldl (\<lambda>s X. snd (h264_onChunkUnit s X)) s xs)
     = buffered (\<lambda>slc. h264NalType (u8_at slc 0) = 7) (H264StreamVideoTranslator.sps s) xs"
  "H264StreamVideoTranslator.pps (foldl (\<lambda>s X. snd (h264_onChunkUnit s X)) s xs)
     = buffered (\<lambda>slc. h264NalType (u8_at slc 0) = 8) (H264StreamVideoTranslator.pps s) xs"
  "H264StreamVideoTranslator.hasDescription (foldl (\<lambda>s X. snd (h264_onChunkUnit s X)) s xs)
     = H264StreamVideoTranslator.hasDescription s"
  "decoderConfig s \<noteq> None \<Longrightarrow>
   decoderConfig (foldl (\<lambda>s X. snd (h264_onChunkUnit s X)) s xs) \<noteq> None"
proof -
  show "H264StreamVideoTranslator.sps (foldl (\<lambda>s X. snd (h264_onChunkUnit s X)) s xs)
     = buffered (\<lambda>slc. h264NalType (u8_at slc 0) = 7) (H264StreamVideoTranslator.sps s) xs"
    unfolding buffered_def
    by (induction xs arbitrary: s) (simp_all add: h264_onChunkUnit_fields(1))
  show "H264StreamVideoTranslator.pps (foldl (\<lambda>s X. snd (h264_onChunkUnit s X)) s xs)
     = buffered (\<lambda>slc. h264NalType (u8_at slc 0) = 8) (H264StreamVideoTranslator.pps s) xs"
    unfolding buffered_def
    by (induction xs arbitrary: s) (simp_all add: h264_onChunkUnit_fields(2))
  show "H264StreamVideoTranslator.hasDescription (foldl (\<lambda>s X. snd (h264_onChunkUnit s X)) s xs)
     = H264StreamVideoTranslator.hasDescription s"
    by (induction xs arbitrary: s) (simp_all add: h264_onChunkUnit_hasDescription)
  show "decoderConfig s \<noteq> None \<Longrightarrow>
   decoderConfig (foldl (\<lambda>s X. snd (h264_onChunkUnit s X)) s xs) \<noteq> None"
  proof (induction xs arbitrary: s)
    case Nil
    then show ?case by simp
  next
    case (Cons a xs)
    from Cons.IH [OF h264_onChunkUnit_fields(3) [OF Cons.prems, of a]] show ?case
      by simp
  qed
qed

lemma h264_translate:
  assumes cfg: "decoderConfig s \<noteq> None" and sp: "h264_startProcessChunk s unit"
      and ok: "list_all (\<lambda>slc. h264NalType (u8_at slc 0) = 7 \<longrightarrow> 4 \<le> length slc)
                 (nal_slices (data unit) 0 0)"
      and run: "h264_submitDecodeUnit s unit = (r, s')"
  shows "\<exists>c. r = Inr (Translated c
                  (Some (length_prefixed
                     (filter (\<lambda>slc. h264NalType (u8_at slc 0) \<noteq> 7 \<and> h264NalType (u8_at slc 0) \<noteq> 8)
                        (nal_slices (data unit) 0 0)))))
           \<and> (case (buffered (\<lambda>slc. h264NalType (u8_at slc 0) = 7) (H264StreamVideoTranslator.sps s)
                       (nal_slices (data unit) 0 0),
                     buffered (\<lambda>slc. h264NalType (u8_at slc 0) = 8) (H264StreamVideoTranslator.pps s)
                       (nal_slices (data unit) 0 0)) of
                 (Some S, Some P) \<Rightarrow>
                   (\<exists>cfg'. c = Some cfg' \<and> description cfg' = Some (avcC_record S P))
                   \<and> H264StreamVideoTranslator.hasDescription s'
                   \<and> H264StreamVideoTranslator.sps s' = None
                   \<and> H264StreamVideoTranslator.pps s' = None
               | (kept_sps, kept_pps) \<Rightarrow>
                   c = None
                   \<and> H264StreamVideoTranslator.hasDescription s'
                       = H264StreamVideoTranslator.hasDescription s
                   \<and> H264StreamVideoTranslator.sps s' = kept_sps
                   \<and> H264StreamVideoTranslator.pps s' = kept_pps)"
proof -
  let ?xs = "nal_slices (data unit) 0 0"
  let ?inc = "\<lambda>slc. h264NalType (u8_at slc 0) \<noteq> 7 \<and> h264NalType (u8_at slc 0) \<noteq> 8"
  let ?chunk = "length_prefixed (filter ?inc ?xs)"
  let ?g = "foldl (\<lambda>s X. snd (h264_onChunkUnit s X)) s ?xs"
  have inc: "\<And>s X. X \<in> set ?xs \<Longrightarrow> fst (h264_onChunkUnit s X) = Inr (?inc X)"
    using ok h264_onChunkUnit_include by (simp add: list_all_iff)
  from submitDecodeUnit_scan [where h = h264_onChunkUnit and inc = ?inc and s = s and unit = unit
        and startProcessChunk = h264_startProcessChunk and endChunk = h264_endChunk,
        OF cfg sp inc h264_onChunkUnit_comm]
  obtain F where pre: "take (length ?chunk) F = ?chunk"
    and sub: "h264_submitDecodeUnit s unit
               = (case h264_endChunk (?g\<lparr>currentFrame := F\<rparr>) of
                    (Inl e, s3) \<Rightarrow> (Inl e, s3)
                  | (Inr reconfigure, s3) \<Rightarrow>
                      (Inr (Translated (if reconfigure then decoderConfig s3 else None)
                              (Some (slice (currentFrame s3) 0 (length ?chunk)))), s3))"
    unfolding h264_submitDecodeUnit_def by blast
  let ?s2 = "?g\<lparr>currentFrame := F\<rparr>"
  obtain cfg2 where cfg2: "decoderConfig ?s2 = Some cfg2"
    using h264_scan_fields(4) [OF cfg, of ?xs] by auto
  have f: "H264StreamVideoTranslator.sps ?s2
             = buffered (\<lambda>slc. h264NalType (u8_at slc 0) = 7) (H264StreamVideoTranslator.sps s) ?xs"
    "H264StreamVideoTranslator.pps ?s2
             = buffered (\<lambda>slc. h264NalType (u8_at slc 0) = 8) (H264StreamVideoTranslator.pps s) ?xs"
    "H264StreamVideoTranslator.hasDescription ?s2 = H264StreamVideoTranslator.hasDescription s"
    by (simp_all add: h264_scan_fields)
  have sl: "slice F 0 (length ?chunk) = ?chunk"
    using pre by (simp add: slice_def)
  show ?thesis
  proof (cases "H264StreamVideoTranslator.sps ?s2 \<noteq> None \<and> H264StreamVideoTranslator.pps ?s2 \<noteq> None")
    case True
    then obtain S P where SP: "H264StreamVideoTranslator.sps ?s2 = Some S"
      "H264StreamVideoTranslator.pps ?s2 = Some P"
      by auto
    have d: "h264MakeAvcC S P = Inr (avcC_record S P)"
      by (simp add: h264MakeAvcC_layout avcC_record_def)
    note e = h264_endChunk_both [OF cfg2 SP(2) SP(1) d]
    have "r = Inr (Translated (Some (cfg2\<lparr>description := Some (avcC_record S P)\<rparr>)) (Some ?chunk))"
      and "s' = ?s2\<lparr>H264StreamVideoTranslator.sps := None, H264StreamVideoTranslator.pps := None,
                  decoderConfig := Some (cfg2\<lparr>description := Some (avcC_record S P)\<rparr>),
                  H264StreamVideoTranslator.hasDescription := True\<rparr>"
      using run unfolding sub e by (simp_all add: sl)
    then show ?thesis
      using SP unfolding f by simp
  next
    case False
    have e: "h264_endChunk ?s2 = (Inr False, ?s2)"
      using False cfg2 by (auto simp: h264_endChunk_def split: option.splits)
    have "r = Inr (Translated None (Some ?chunk))" and "s' = ?s2"
      using run unfolding sub e by (simp_all add: sl)
    then show ?thesis
      using False f by (auto split: option.splits)
  qed
qed

lemma h265_onChunkUnit_comm:
  "snd (h265_onChunkUnit (s\<lparr>currentFrame := F\<rparr>) X) = (snd (h265_onChunkUnit s X))\<lparr>currentFrame := F\<rparr>"
  by (simp add: h265_onChunkUnit_def Let_def)

lemma h265_onChunkUnit_include:
  "fst (h265_onChunkUnit s X)
   = Inr (h265NalType (u8_at X 0) \<noteq> 32 \<and> h265NalType (u8_at X 0) \<noteq> 33
          \<and> h265NalType (u8_at X 0) \<noteq> 34)"
  by (simp add: h265_onChunkUnit_def Let_def)

lemma h265_onChunkUnit_fields:
  "H265StreamVideoTranslator.vps (snd (h265_onChunkUnit s X))
     = (if h265NalType (u8_at X 0) = 32 then Some X else H265StreamVideoTranslator.vps s)"
  "H265StreamVideoTranslator.sps (snd (h265_onChunkUnit s X))
     = (if h265NalType (u8_at X 0) = 33 then Some X else H265StreamVideoTranslator.sps s)"
  "H265StreamVideoTranslator.pps (snd (h265_onChunkUnit s X))
     = (if h265NalType (u8_at X 0) = 34 then Some X else H265StreamVideoTranslator.pps s)"
  "H265StreamVideoTranslator.hasDescription (snd (h265_onChunkUnit s X))
     = H265StreamVideoTranslator.hasDescription s"
  "decoderConfig (snd (h265_onChunkUnit s X)) = decoderConfig s"
  by (auto simp: h265_onChunkUnit_def Let_def)

lemma h265_scan_fields:
  "H265StreamVideoTranslator.vps (foldl (\<lambda>s X. snd (h265_onChunkUnit s X)) s xs)
     = buffered (\<lambda>slc. h265NalType (u8_at slc 0) = 32) (H265StreamVideoTranslator.vps s) xs"
  "H265StreamVideoTranslator.sps (foldl (\<lambda>s X. snd (h265_onChunkUnit s X)) s xs)
     = buffered (\<lambda>slc. h265NalType (u8_at slc 0) = 33) (H265StreamVideoTranslator.sps s) xs"
  "H265StreamVideoTranslator.pps (foldl (\<lambda>s X. snd (h265_onChunkUnit s X)) s xs)
     = buffered (\<lambda>slc. h265NalType (u8_at slc 0) = 34) (H265StreamVideoTranslator.pps s) xs"
  "H265StreamVideoTranslator.hasDescription (foldl (\<lambda>s X. snd (h265_onChunkUnit s X)) s xs)
     = H265StreamVideoTranslator.hasDescription s"
  "decoderConfig (foldl (\<lambda>s X. snd (h265_onChunkUnit s X)) s xs) = decoderConfig s"
proof -
  show "H265StreamVideoTranslator.vps (foldl (\<lambda>s X. snd (h265_onChunkUnit s X)) s xs)
     = buffered (\<lambda>slc. h265NalType (u8_at slc 0) = 32) (H265StreamVideoTranslator.vps s) xs"
    unfolding buffered_def
    by (induction xs arbitrary: s) (simp_all add: h265_onChunkUnit_fields(1))
  show "H265StreamVideoTranslator.sps (foldl (\<lambda>s X. snd (h265_onChunkUnit s X)) s xs)
     = buffered (\<lambda>slc. h265NalType (u8_at slc 0) = 33) (H265StreamVideoTranslator.sps s) xs"
    unfolding buffered_def
    by (induction xs arbitrary: s) (simp_all add: h265_onChunkUnit_fields(2))
  show "H265StreamVideoTranslator.pps (foldl (\<lambda>s X. snd (h265_onChunkUnit s X)) s xs)
     = buffered (\<lambda>slc. h265NalType (u8_at slc 0) = 34) (H265StreamVideoTranslator.pps s) xs"
    unfolding buffered_def
    by (induction xs arbitrary: s) (simp_all add: h265_onChunkUnit_fields(3))
  show "H265StreamVideoTranslator.hasDescription (foldl (\<lambda>s X. snd (h265_onChunkUnit s X)) s xs)
     = H265StreamVideoTranslator.hasDescription s"
    by (induction xs arbitrary: s) (simp_all add: h265_onChunkUnit_fields(4))
  show "decoderConfig (foldl (\<lambda>s X. snd (h265_onChunkUnit s X)) s xs) = decoderConfig s"
    by (induction xs arbitrary: s) (simp_all add: h265_onChunkUnit_fields(5))
qed

lemma h265_endChunk_complete:
  assumes "decoderConfig s = Some cfg" and "H265StreamVideoTranslator.vps s = Some V"
      and "H265StreamVideoTranslator.sps s = Some S" and "H265StreamVideoTranslator.pps s = Some P"
  shows "h265_endChunk s
         = (Inr True,
            s\<lparr>decoderConfig := Some (cfg\<lparr>description := Some (hvcC_record V S P)\<rparr>),
              H265StreamVideoTranslator.vps := None, H265StreamVideoTranslator.sps := None,
              H265StreamVideoTranslator.pps := None,
              H265StreamVideoTranslator.hasDescription := True\<rparr>)"
  using assms by (simp add: h265_endChunk_def h265MakeHvcC_layout)

lemma h265_translate:
  assumes cfg: "decoderConfig s \<noteq> None" and sp: "h265_startProcessChunk s unit"
      and run: "h265_submitDecodeUnit s unit = (r, s')"
  shows "\<exists>c. r = Inr (Translated c
                  (Some (length_prefixed
                     (filter (\<lambda>slc. h265NalType (u8_at slc 0) \<noteq> 32 \<and> h265NalType (u8_at slc 0) \<noteq> 33
                                     \<and> h265NalType (u8_at slc 0) \<noteq> 34)
                        (nal_slices (data unit) 0 0)))))
           \<and> (case (buffered (\<lambda>slc. h265NalType (u8_at slc 0) = 32) (H265StreamVideoTranslator.vps s)
                       (nal_slices (data unit) 0 0),
                     buffered (\<lambda>slc. h265NalType (u8_at slc 0) = 33) (H265StreamVideoTranslator.sps s)
                       (nal_slices (data unit) 0 0),
                     buffered (\<lambda>slc. h265NalType (u8_at slc 0) = 34) (H265StreamVideoTranslator.pps s)
                       (nal_slices (data unit) 0 0)) of
                 (Some V, Some S, Some P) \<Rightarrow>
                   (\<exists>cfg'. c = Some cfg' \<and> description cfg' = Some (hvcC_record V S P))
                   \<and> H265StreamVideoTranslator.hasDescription s'
                   \<and> H265StreamVideoTranslator.vps s' = None
                   \<and> H265StreamVideoTranslator.sps s' = None
                   \<and> H265StreamVideoTranslator.pps s' = None
               | (kept_vps, kept_sps, kept_pps) \<Rightarrow>
                   c = None
                   \<and> H265StreamVideoTranslator.hasDescription s'
                       = H265StreamVideoTranslator.hasDescription s
                   \<and> H265StreamVideoTranslator.vps s' = kept_vps
                   \<and> H265StreamVideoTranslator.sps s' = kept_sps
                   \<and> H265StreamVideoTranslator.pps s' = kept_pps)"
proof -
  let ?xs = "nal_slices (data unit) 0 0"
  let ?inc = "\<lambda>slc. h265NalType (u8_at slc 0) \<noteq> 32 \<and> h265NalType (u8_at slc 0) \<noteq> 33
                     \<and> h265NalType (u8_at slc 0) \<noteq> 34"
  let ?chunk = "length_prefixed (filter ?inc ?xs)"
  let ?g = "foldl (\<lambda>s X. snd (h265_onChunkUnit s X)) s ?xs"
  from submitDecodeUnit_scan [where h = h265_onChunkUnit and inc = ?inc and s = s and unit = unit
        and startProcessChunk = h265_startProcessChunk and endChunk = h265_endChunk,
        OF cfg sp h265_onChunkUnit_include h265_onChunkUnit_comm]
  obtain F where pre: "take (length ?chunk) F = ?chunk"
    and sub: "h265_submitDecodeUnit s unit
               = (case h265_endChunk (?g\<lparr>currentFrame := F\<rparr>) of
                    (Inl e, s3) \<Rightarrow> (Inl e, s3)
                  | (Inr reconfigure, s3) \<Rightarrow>
                      (Inr (Translated (if reconfigure then decoderConfig s3 else None)
                              (Some (slice (currentFrame s3) 0 (length ?chunk)))), s3))"
    unfolding h265_submitDecodeUnit_def by blast
  let ?s2 = "?g\<lparr>currentFrame := F\<rparr>"
  obtain cfg2 where cfg2: "decoderConfig ?s2 = Some cfg2"
    using cfg by (auto simp: h265_scan_fields)
  have f: "H265StreamVideoTranslator.vps ?s2
             = buffered (\<lambda>slc. h265NalType (u8_at slc 0) = 32) (H265StreamVideoTranslator.vps s) ?xs"
    "H265StreamVideoTranslator.sps ?s2
             = buffered (\<lambda>slc. h265NalType (u8_at slc 0) = 33) (H265StreamVideoTranslator.sps s) ?xs"
    "H265StreamVideoTranslator.pps ?s2
             = buffered (\<lambda>slc. h265NalType (u8_at slc 0) = 34) (H265StreamVideoTranslator.pps s) ?xs"
    "H265StreamVideoTranslator.hasDescription ?s2 = H265StreamVideoTranslator.hasDescription s"
    by (simp_all add: h265_scan_fields)
  have sl: "slice F 0 (length ?chunk) = ?chunk"
    using pre by (simp add: slice_def)
  show ?thesis
  proof (cases "H265StreamVideoTranslator.vps ?s2 = None \<or> H265StreamVideoTranslator.sps ?s2 = None
                \<or> H265StreamVideoTranslator.pps ?s2 = None")
    case False
    then obtain V S P where VSP: "H265StreamVideoTranslator.vps ?s2 = Some V"
      "H265StreamVideoTranslator.sps ?s2 = Some S" "H265StreamVideoTranslator.pps ?s2 = Some P"
      by auto
    note e = h265_endChunk_complete [OF cfg2 VSP]
    have "r = Inr (Translated (Some (cfg2\<lparr>description := Some (hvcC_record V S P)\<rparr>)) (Some ?chunk))"
      and "s' = ?s2\<lparr>decoderConfig := Some (cfg2\<lparr>description := Some (hvcC_record V S P)\<rparr>),
                  H265StreamVideoTranslator.vps := None, H265StreamVideoTranslator.sps := None,
                  H265StreamVideoTranslator.pps := None,
                  H265StreamVideoTranslator.hasDescription := True\<rparr>"
      using run unfolding sub e by (simp_all add: sl)
    then show ?thesis
      using VSP unfolding f by simp
  next
    case True
    have e: "h265_endChunk ?s2 = (Inr False, ?s2)"
      by (rule h265_endChunk_missing [OF cfg2 True])
    have "r = Inr (Translated None (Some ?chunk))" and "s' = ?s2"
      using run unfolding sub e by (simp_all add: sl)
    then show ?thesis
      using True f by (auto split: option.splits)
  qed
qed

lemma description_from_H264:
  "description_from (H264Translator x) [a, b]
   = (case (a, b) of (Some S, Some P) \<Rightarrow> Some (avcC_record S P) | _ \<Rightarrow> None)"
  by (cases a; cases b) simp_all

lemma description_from_H265:
  "description_from (H265Translator x) [a, b, c]
   = (case (a, b, c) of (Some V, Some S, Some P) \<Rightarrow> Some (hvcC_record V S P) | _ \<Rightarrow> None)"
  by (cases a; cases b; cases c) simp_all

lemma translator_sets:
  assumes run: "translator_submitDecodeUnit t unit = (r, t')"
      and sp: "type unit = Key \<or> has_description t"
      and cfg: "translator_getCurrentConfig t \<noteq> None"
      and ok: "sps_parses t unit"
  shows "\<exists>c. r = Inr (Translated c (Some (length_prefixed (included_slices t unit))))
           \<and> (case description_from t (sets_after_scan t unit) of
                 Some d \<Rightarrow>
                   (\<exists>cfg'. c = Some cfg' \<and> description cfg' = Some d)
                   \<and> has_description t' \<and> no_pending_sets t'
               | None \<Rightarrow>
                   c = None \<and> has_description t' = has_description t
                   \<and> pending_sets t' = sets_after_scan t unit)"
proof (cases t)
  case (H264Translator x)
  obtain x' where runx: "h264_submitDecodeUnit x unit = (r, x')" and t': "t' = H264Translator x'"
    using run by (auto simp: translator_submitDecodeUnit_def H264Translator split: prod.splits)
  have pre: "decoderConfig x \<noteq> None" "h264_startProcessChunk x unit"
    "list_all (\<lambda>slc. h264NalType (u8_at slc 0) = 7 \<longrightarrow> 4 \<le> length slc) (nal_slices (data unit) 0 0)"
    using sp cfg ok
    by (simp_all add: translator_getCurrentConfig_def has_description_def sps_parses_def
          h264_startProcessChunk_def H264Translator)
  have inc: "included_slices t unit
             = filter (\<lambda>slc. h264NalType (u8_at slc 0) \<noteq> 7 \<and> h264NalType (u8_at slc 0) \<noteq> 8)
                 (nal_slices (data unit) 0 0)"
    by (simp add: included_slices_def is_parameter_set_def H264Translator)
  from h264_translate [OF pre runx] show ?thesis
    unfolding inc
    by (auto simp: H264Translator t' sets_after_scan_def Let_def description_from_H264
          has_description_def no_pending_sets_def pending_sets_def split: option.splits)
next
  case (H265Translator x)
  obtain x' where runx: "h265_submitDecodeUnit x unit = (r, x')" and t': "t' = H265Translator x'"
    using run by (auto simp: translator_submitDecodeUnit_def H265Translator split: prod.splits)
  have pre: "decoderConfig x \<noteq> None" "h265_startProcessChunk x unit"
    using sp cfg
    by (simp_all add: translator_getCurrentConfig_def has_description_def
          h265_startProcessChunk_def H265Translator)
  have inc: "included_slices t unit
             = filter (\<lambda>slc. h265NalType (u8_at slc 0) \<noteq> 32 \<and> h265NalType (u8_at slc 0) \<noteq> 33
                              \<and> h265NalType (u8_at slc 0) \<noteq> 34)
                 (nal_slices (data unit) 0 0)"
    by (simp add: included_slices_def is_parameter_set_def H265Translator)
  from h265_translate [OF pre runx] show ?thesis
    unfolding inc
    by (auto simp: H265Translator t' sets_after_scan_def Let_def description_from_H265
          has_description_def no_pending_sets_def pending_sets_def split: option.splits)
qed

subsection \<open>Either translator\<close>

lemma translator_latch:
  assumes "translator_submitDecodeUnit t unit = (r, t')"
  shows "(has_description t \<longrightarrow> has_description t')
       \<and> (reconfigures t unit \<longrightarrow> has_description t' \<and> no_pending_sets t')
       \<and> (\<not> has_description t \<and> has_description t' \<longrightarrow> reconfigures t unit)
       \<and> (\<not> has_description t \<and> type unit = Delta \<and> translator_getCurrentConfig t \<noteq> None
            \<longrightarrow> r = Inr (Translated None None) \<and> t' = t)
       \<and> (has_description t \<and> translator_getCurrentConfig t \<noteq> None \<and> lacks_parameter_sets t unit
            \<longrightarrow> (\<exists>c chunk. r = Inr (Translated c (Some chunk)) \<and> chunk \<noteq> []))"
proof (cases t)
  case (H264Translator x)
  obtain x' where run: "h264_submitDecodeUnit x unit = (r, x')" and t': "t' = H264Translator x'"
    using assms by (auto simp: translator_submitDecodeUnit_def H264Translator split: prod.splits)
  have rec: "reconfigures t unit \<longleftrightarrow> (\<exists>cfg c. r = Inr (Translated (Some cfg) (Some c)))"
    by (auto simp: reconfigures_def assms split: sum.splits TranslateResult.splits option.splits)
  have hd: "has_description t = H264StreamVideoTranslator.hasDescription x"
    "has_description t' = H264StreamVideoTranslator.hasDescription x'"
    "no_pending_sets t' \<longleftrightarrow> H264StreamVideoTranslator.sps x' = None \<and> H264StreamVideoTranslator.pps x' = None"
    "translator_getCurrentConfig t = decoderConfig x"
    "lacks_parameter_sets t unit
       = list_all (\<lambda>slc. \<not> (h264NalType (u8_at slc 0) = 7 \<or> h264NalType (u8_at slc 0) = 8))
           (nal_slices (data unit) 0 0)"
    by (simp_all add: has_description_def no_pending_sets_def translator_getCurrentConfig_def
          lacks_parameter_sets_def is_parameter_set_def H264Translator t')
  have 1: "has_description t \<longrightarrow> has_description t'"
    using h264_keep [of x unit] by (simp add: hd run)
  have 2: "reconfigures t unit \<longrightarrow> has_description t' \<and> no_pending_sets t'"
    using h264_configure [of x unit] run by (auto simp: rec hd)
  have 3: "\<not> has_description t \<and> has_description t' \<longrightarrow> reconfigures t unit"
    using h264_only [of x unit] by (simp add: rec hd run)
  have 4: "\<not> has_description t \<and> type unit = Delta \<and> translator_getCurrentConfig t \<noteq> None
            \<longrightarrow> r = Inr (Translated None None) \<and> t' = t"
    using h264_delta [of x unit] run unfolding hd by (auto simp: H264Translator t')
  have 5: "has_description t \<and> translator_getCurrentConfig t \<noteq> None \<and> lacks_parameter_sets t unit
            \<longrightarrow> (\<exists>c chunk. r = Inr (Translated c (Some chunk)) \<and> chunk \<noteq> [])"
    using h264_without_sets [of x unit] run unfolding hd by auto
  from 1 2 3 4 5 show ?thesis
    by blast
next
  case (H265Translator x)
  obtain x' where run: "h265_submitDecodeUnit x unit = (r, x')" and t': "t' = H265Translator x'"
    using assms by (auto simp: translator_submitDecodeUnit_def H265Translator split: prod.splits)
  have rec: "reconfigures t unit \<longleftrightarrow> (\<exists>cfg c. r = Inr (Translated (Some cfg) (Some c)))"
    by (auto simp: reconfigures_def assms split: sum.splits TranslateResult.splits option.splits)
  have hd: "has_description t = H265StreamVideoTranslator.hasDescription x"
    "has_description t' = H265StreamVideoTranslator.hasDescription x'"
    "no_pending_sets t' \<longleftrightarrow> H265StreamVideoTranslator.vps x' = None \<and> H265StreamVideoTranslator.sps x' = None \<and> H265StreamVideoTranslator.pps x' = None"
    "translator_getCurrentConfig t = decoderConfig x"
    "lacks_parameter_sets t unit
       = list_all (\<lambda>slc. \<not> (h265NalType (u8_at slc 0) = 32 \<or> h265NalType (u8_at slc 0) = 33 \<or> h265NalType (u8_at slc 0) = 34))
           (nal_slices (data unit) 0 0)"
    by (simp_all add: has_description_def no_pending_sets_def translator_getCurrentConfig_def
          lacks_parameter_sets_def is_parameter_set_def H265Translator t')
  have 1: "has_description t \<longrightarrow> has_description t'"
    using h265_keep [of x unit] by (simp add: hd run)
  have 2: "reconfigures t unit \<longrightarrow> has_description t' \<and> no_pending_sets t'"
    using h265_configure [of x unit] run by (auto simp: rec hd)
  have 3: "\<not> has_description t \<and> has_description t' \<longrightarrow> reconfigures t unit"
    using h265_only [of x unit] by (simp add: rec hd run)
  have 4: "\<not> has_description t \<and> type unit = Delta \<and> translator_getCurrentConfig t \<noteq> None
            \<longrightarrow> r = Inr (Translated None None) \<and> t' = t"
    using h265_delta [of x unit] run unfolding hd by (auto simp: H265Translator t')
  have 5: "has_description t \<and> translator_getCurrentConfig t \<noteq> None \<and> lacks_parameter_sets t unit
            \<longrightarrow> (\<exists>c chunk. r = Inr (Translated c (Some chunk)) \<and> chunk \<noteq> [])"
    using h265_without_sets [of x unit] run unfolding hd by auto
  from 1 2 3 4 5 show ?thesis
    by blast
qed

lemma h264_endChunk_config:
  "decoderConfig s \<noteq> None \<Longrightarrow> decoderConfig (snd (h264_endChunk s)) \<noteq> None"
  using h264_endChunk_cases [of s "fst (h264_endChunk s)" "snd (h264_endChunk s)"] by auto

lemma h265_endChunk_config:
  "decoderConfig s \<noteq> None \<Longrightarrow> decoderConfig (snd (h265_endChunk s)) \<noteq> None"
  using h265_endChunk_cases [of s "fst (h265_endChunk s)" "snd (h265_endChunk s)"] by auto

lemma h264_config_kept:
  assumes cfg: "decoderConfig s \<noteq> None"
  shows "decoderConfig (snd (h264_submitDecodeUnit s unit)) \<noteq> None"
proof (cases "h264_startProcessChunk s unit")
  case False
  then show ?thesis
    using cfg by (auto simp: h264_submitDecodeUnit_def submitDecodeUnit_def)
next
  case True
  have inv: "decoderConfig
               (snd (foldl (feed h264_onChunkUnit) (Inr 0, s) (nal_slices (data unit) 0 0))) \<noteq> None"
    by (rule foldl_feed_invariant [where Q = "\<lambda>s. decoderConfig s \<noteq> None"])
       (simp_all add: h264_onChunkUnit_fields(3) cfg)
  show ?thesis
  proof (cases rule: submitDecodeUnit_run [where h = h264_onChunkUnit and endChunk = h264_endChunk
        and startProcessChunk = h264_startProcessChunk and s = s and unit = unit, OF cfg True])
    case (1 e s2)
    then show ?thesis using inv by (simp add: h264_submitDecodeUnit_def)
  next
    case (2 cfs s2 e s3)
    then show ?thesis
      using inv h264_endChunk_config [of s2] by (simp add: h264_submitDecodeUnit_def)
  next
    case (3 cfs s2 reconfigure s3)
    then show ?thesis
      using inv h264_endChunk_config [of s2] by (simp add: h264_submitDecodeUnit_def)
  qed
qed

lemma h265_config_kept:
  assumes cfg: "decoderConfig s \<noteq> None"
  shows "decoderConfig (snd (h265_submitDecodeUnit s unit)) \<noteq> None"
proof (cases "h265_startProcessChunk s unit")
  case False
  then show ?thesis
    using cfg by (auto simp: h265_submitDecodeUnit_def submitDecodeUnit_def)
next
  case True
  have inv: "decoderConfig
               (snd (foldl (feed h265_onChunkUnit) (Inr 0, s) (nal_slices (data unit) 0 0))) \<noteq> None"
    by (rule foldl_feed_invariant [where Q = "\<lambda>s. decoderConfig s \<noteq> None"])
       (simp_all add: h265_onChunkUnit_fields(5) cfg)
  show ?thesis
  proof (cases rule: submitDecodeUnit_run [where h = h265_onChunkUnit and endChunk = h265_endChunk
        and startProcessChunk = h265_startProcessChunk and s = s and unit = unit, OF cfg True])
    case (1 e s2)
    then show ?thesis using inv by (simp add: h265_submitDecodeUnit_def)
  next
    case (2 cfs s2 e s3)
    then show ?thesis
      using inv h265_endChunk_config [of s2] by (simp add: h265_submitDecodeUnit_def)
  next
    case (3 cfs s2 reconfigure s3)
    then show ?thesis
      using inv h265_endChunk_config [of s2] by (simp add: h265_submitDecodeUnit_def)
  qed
qed

lemma translator_config_kept:
  assumes "translator_submitDecodeUnit t unit = (r, t')"
      and "translator_getCurrentConfig t \<noteq> None"
  shows "translator_getCurrentConfig t' \<noteq> None"
proof (cases t)
  case (H264Translator x)
  then show ?thesis
    using assms h264_config_kept [of x unit]
    by (auto simp: translator_submitDecodeUnit_def translator_getCurrentConfig_def split: prod.splits)
next
  case (H265Translator x)
  then show ?thesis
    using assms h265_config_kept [of x unit]
    by (auto simp: translator_submitDecodeUnit_def translator_getCurrentConfig_def split: prod.splits)
qed

lemma translator_same_codec:
  assumes "translator_submitDecodeUnit t unit = (r, t')"
  shows "(case t of H264Translator x \<Rightarrow> (\<exists>x'. t' = H264Translator x')
                  | H265Translator x \<Rightarrow> (\<exists>x'. t' = H265Translator x'))"
  using assms by (auto simp: translator_submitDecodeUnit_def split: Translator.splits prod.splits)

text \<open>
  C2. For a translator of either codec and a call of \<^verbatim>\<open>submitDecodeUnit\<close> that leaves
  it in the state \<open>t'\<close>, by returning or by throwing: a description it has is kept; a
  call that returns a new configuration leaves it with a description and with no pending
  parameter set; a description appears only by such a call; a delta unit handed to a
  translator without description returns no chunk and changes nothing; and a translator
  with a description returns a chunk that is not empty for every unit that contains no
  parameter set. A unit that the translator processes, a key unit or any unit once it
  has a description, returns the chunk of its slices that are not parameter sets, and
  what else happens depends on the parameter sets held after the scan, those of the unit
  and those kept from earlier units: if the group is complete the call returns a
  configuration whose description is made of exactly this group, and the translator has
  a description and no pending set; if a set is missing the call returns no
  configuration, \<open>hasDescription\<close> is as before and the sets stay pending. A
  translator that has a configuration keeps one.
\<close>

theorem translator_description_latch:
  assumes "translator_submitDecodeUnit t unit = (r, t')"
  shows "(has_description t \<longrightarrow> has_description t')
       \<and> (reconfigures t unit \<longrightarrow> has_description t' \<and> no_pending_sets t')
       \<and> (\<not> has_description t \<and> has_description t' \<longrightarrow> reconfigures t unit)
       \<and> (\<not> has_description t \<and> type unit = Delta \<and> translator_getCurrentConfig t \<noteq> None
            \<longrightarrow> r = Inr (Translated None None) \<and> t' = t)
       \<and> (has_description t \<and> translator_getCurrentConfig t \<noteq> None \<and> lacks_parameter_sets t unit
            \<longrightarrow> (\<exists>c chunk. r = Inr (Translated c (Some chunk)) \<and> chunk \<noteq> []))
       \<and> ((type unit = Key \<or> has_description t) \<and> translator_getCurrentConfig t \<noteq> None
            \<and> sps_parses t unit
            \<longrightarrow> (\<exists>c. r = Inr (Translated c (Some (length_prefixed (included_slices t unit))))
                   \<and> (case description_from t (sets_after_scan t unit) of
                         Some d \<Rightarrow>
                           (\<exists>cfg'. c = Some cfg' \<and> description cfg' = Some d)
                           \<and> has_description t' \<and> no_pending_sets t'
                       | None \<Rightarrow>
                           c = None \<and> has_description t' = has_description t
                           \<and> pending_sets t' = sets_after_scan t unit)))
       \<and> (translator_getCurrentConfig t \<noteq> None \<longrightarrow> translator_getCurrentConfig t' \<noteq> None)"
  using translator_latch [OF assms] translator_sets [OF assms] translator_config_kept [OF assms]
  by blast

text \<open>
  A new H.264 translator has no description; the key unit with SPS, PPS and IDR slice
  gives the chunk of the slice and a configuration with the description of 20 bytes,
  after which the translator has a description and no pending set, and the next key unit,
  an IDR slice alone, gives its chunk and no configuration. A new H.265 translator
  returns no chunk for a delta unit; for a key unit with VPS, SPS and a slice it returns
  the chunk of the slice and no configuration and keeps the two sets; the next key unit
  brings the PPS, and the call returns a configuration with the description made of the
  three sets and leaves no set pending.
\<close>

theorem translator_description_latch_witness:
  "\<exists>cfg1 t1 t2 u1 cfg2 u2.
     \<not> has_description (H264Translator H264StreamVideoTranslator_new)
     \<and> translator_submitDecodeUnit (H264Translator H264StreamVideoTranslator_new)
          \<lparr>type = Key,
            data = [0, 0, 0, 1, 0x67, 0x42, 0xE0, 0x1E, 0, 0, 0, 1, 0x68, 0xCE, 0x3C, 0x80,
                    0, 0, 1, 0x65, 0x88, 0x84],
            timestampMicroseconds = 0, durationMicroseconds = 0\<rparr>
         = (Inr (Translated (Some cfg1) (Some [0, 0, 0, 3, 0x65, 0x88, 0x84])), t1)
     \<and> description cfg1
         = Some [0x01, 0x42, 0xE0, 0x1E, 0xFF, 0xE1, 0x00, 0x04, 0x67, 0x42, 0xE0, 0x1E,
                 0x01, 0x00, 0x04, 0x68, 0xCE, 0x3C, 0x80, 0x00]
     \<and> has_description t1 \<and> no_pending_sets t1
     \<and> lacks_parameter_sets t1
          \<lparr>type = Key, data = [0, 0, 0, 1, 0x65, 0x88],
            timestampMicroseconds = 16667, durationMicroseconds = 0\<rparr>
     \<and> translator_submitDecodeUnit t1
          \<lparr>type = Key, data = [0, 0, 0, 1, 0x65, 0x88],
            timestampMicroseconds = 16667, durationMicroseconds = 0\<rparr>
         = (Inr (Translated None (Some [0, 0, 0, 2, 0x65, 0x88])), t2)
     \<and> has_description t2
     \<and> translator_submitDecodeUnit (H265Translator H265StreamVideoTranslator_new)
          \<lparr>type = Delta, data = [0, 0, 0, 1, 0x02, 0x01],
            timestampMicroseconds = 0, durationMicroseconds = 0\<rparr>
         = (Inr (Translated None None), H265Translator H265StreamVideoTranslator_new)
     \<and> translator_submitDecodeUnit (H265Translator H265StreamVideoTranslator_new)
          \<lparr>type = Key,
            data = [0, 0, 0, 1, 0x40, 0x01, 0x0C, 0, 0, 0, 1, 0x42, 0x01, 0x01,
                    0, 0, 1, 0x26, 0x01, 0xAF],
            timestampMicroseconds = 0, durationMicroseconds = 0\<rparr>
         = (Inr (Translated None (Some [0, 0, 0, 3, 0x26, 0x01, 0xAF])), u1)
     \<and> \<not> has_description u1
     \<and> pending_sets u1 = [Some [0x40, 0x01, 0x0C], Some [0x42, 0x01, 0x01], None]
     \<and> translator_submitDecodeUnit u1
          \<lparr>type = Key, data = [0, 0, 0, 1, 0x44, 0x01, 0xC1, 0, 0, 1, 0x26, 0x01, 0xAF],
            timestampMicroseconds = 16667, durationMicroseconds = 0\<rparr>
         = (Inr (Translated (Some cfg2) (Some [0, 0, 0, 3, 0x26, 0x01, 0xAF])), u2)
     \<and> description cfg2
         = Some [1, 0, 0, 0, 0, 0, 0, 0, 0, 0, 0, 0, 0, 0xF0, 0x00, 0xFC, 0xFD, 0xF8, 0xF8,
                 0x00, 0x00, 0x0F, 3,
                 0x20, 0, 1, 0, 3, 0x40, 0x01, 0x0C,
                 0x21, 0, 1, 0, 3, 0x42, 0x01, 0x01,
                 0x22, 0, 1, 0, 3, 0x44, 0x01, 0xC1]
     \<and> has_description u2 \<and> no_pending_sets u2"
proof -
  let ?unitK = "\<lparr>type = Key,
            data = [0, 0, 0, 1, 0x67, 0x42, 0xE0, 0x1E, 0, 0, 0, 1, 0x68, 0xCE, 0x3C, 0x80,
                    0, 0, 1, 0x65, 0x88, 0x84],
            timestampMicroseconds = 0, durationMicroseconds = 0\<rparr>"
  let ?unitI = "\<lparr>type = Key, data = [0, 0, 0, 1, 0x65, 0x88],
            timestampMicroseconds = 16667, durationMicroseconds = 0\<rparr>"
  let ?unitD = "\<lparr>type = Delta, data = [0, 0, 0, 1, 0x02, 0x01],
            timestampMicroseconds = 0, durationMicroseconds = 0\<rparr>"
  let ?unitV = "\<lparr>type = Key,
            data = [0, 0, 0, 1, 0x40, 0x01, 0x0C, 0, 0, 0, 1, 0x42, 0x01, 0x01,
                    0, 0, 1, 0x26, 0x01, 0xAF],
            timestampMicroseconds = 0, durationMicroseconds = 0\<rparr>"
  let ?unitP = "\<lparr>type = Key, data = [0, 0, 0, 1, 0x44, 0x01, 0xC1, 0, 0, 1, 0x26, 0x01, 0xAF],
            timestampMicroseconds = 16667, durationMicroseconds = 0\<rparr>"
  let ?t0 = "H264Translator H264StreamVideoTranslator_new"
  let ?u0 = "H265Translator H265StreamVideoTranslator_new"
  have slices:
    "nal_slices [0, 0, 0, 1, 0x67, 0x42, 0xE0, 0x1E, 0, 0, 0, 1, 0x68, 0xCE, 0x3C, 0x80,
                 0, 0, 1, 0x65, 0x88, 0x84] 0 0
       = [[0x67, 0x42, 0xE0, 0x1E], [0x68, 0xCE, 0x3C, 0x80], [0x65, 0x88, 0x84]]"
    "nal_slices [0, 0, 0, 1, 0x65, 0x88] 0 0 = [[0x65, 0x88]]"
    "nal_slices [0, 0, 0, 1, 0x40, 0x01, 0x0C, 0, 0, 0, 1, 0x42, 0x01, 0x01,
                 0, 0, 1, 0x26, 0x01, 0xAF] 0 0
       = [[0x40, 0x01, 0x0C], [0x42, 0x01, 0x01], [0x26, 0x01, 0xAF]]"
    "nal_slices [0, 0, 0, 1, 0x44, 0x01, 0xC1, 0, 0, 1, 0x26, 0x01, 0xAF] 0 0
       = [[0x44, 0x01, 0xC1], [0x26, 0x01, 0xAF]]"
    by code_simp+
  have types:
    "h264NalType 0x67 = 7" "h264NalType 0x68 = 8" "h264NalType 0x65 = 5"
    "h265NalType 0x40 = 32" "h265NalType 0x42 = 33" "h265NalType 0x44 = 34" "h265NalType 0x26 = 19"
    by code_simp+
  have chunks: "be32 3 = [0, 0, 0, 3]" "be32 2 = [0, 0, 0, 2]"
    by code_simp+
  have recs:
    "avcC_record [0x67, 0x42, 0xE0, 0x1E] [0x68, 0xCE, 0x3C, 0x80]
       = [0x01, 0x42, 0xE0, 0x1E, 0xFF, 0xE1, 0x00, 0x04, 0x67, 0x42, 0xE0, 0x1E,
          0x01, 0x00, 0x04, 0x68, 0xCE, 0x3C, 0x80, 0x00]"
    "hvcC_record [0x40, 0x01, 0x0C] [0x42, 0x01, 0x01] [0x44, 0x01, 0xC1]
       = [1, 0, 0, 0, 0, 0, 0, 0, 0, 0, 0, 0, 0, 0xF0, 0x00, 0xFC, 0xFD, 0xF8, 0xF8,
          0x00, 0x00, 0x0F, 3,
          0x20, 0, 1, 0, 3, 0x40, 0x01, 0x0C,
          0x21, 0, 1, 0, 3, 0x42, 0x01, 0x01,
          0x22, 0, 1, 0, 3, 0x44, 0x01, 0xC1]"
    by code_simp+
  note ev = slices types chunks recs u8_at_def buffered_def sets_after_scan_def
    included_slices_def is_parameter_set_def sps_parses_def lacks_parameter_sets_def
    has_description_def translator_getCurrentConfig_def pending_sets_def no_pending_sets_def
    H264StreamVideoTranslator_new_def H265StreamVideoTranslator_new_def Let_def

  \<comment> \<open>H.264: SPS, PPS and IDR slice in one key unit\<close>
  have fresh: "\<not> has_description ?t0"
    by (simp add: ev)
  obtain r1 t1 where run1: "translator_submitDecodeUnit ?t0 ?unitK = (r1, t1)"
    by (cases "translator_submitDecodeUnit ?t0 ?unitK")
  have pre1: "(type ?unitK = Key \<or> has_description ?t0) \<and> translator_getCurrentConfig ?t0 \<noteq> None
              \<and> sps_parses ?t0 ?unitK"
    by (simp add: ev)
  have inc1: "length_prefixed (included_slices ?t0 ?unitK) = [0, 0, 0, 3, 0x65, 0x88, 0x84]"
    by (simp add: ev)
  have d1: "description_from ?t0 (sets_after_scan ?t0 ?unitK)
              = Some [0x01, 0x42, 0xE0, 0x1E, 0xFF, 0xE1, 0x00, 0x04, 0x67, 0x42, 0xE0, 0x1E,
                      0x01, 0x00, 0x04, 0x68, 0xCE, 0x3C, 0x80, 0x00]"
    by (simp add: ev)
  from translator_description_latch [OF run1] pre1
  obtain cfg1 where r1: "r1 = Inr (Translated (Some cfg1) (Some [0, 0, 0, 3, 0x65, 0x88, 0x84]))"
    and c1: "description cfg1
         = Some [0x01, 0x42, 0xE0, 0x1E, 0xFF, 0xE1, 0x00, 0x04, 0x67, 0x42, 0xE0, 0x1E,
                 0x01, 0x00, 0x04, 0x68, 0xCE, 0x3C, 0x80, 0x00]"
    and h1: "has_description t1" "no_pending_sets t1" "translator_getCurrentConfig t1 \<noteq> None"
    unfolding inc1 d1 by auto
  obtain x1 where x1: "t1 = H264Translator x1"
    using translator_same_codec [OF run1] by auto

  \<comment> \<open>then a key unit with an IDR slice alone\<close>
  obtain r2 t2 where run2: "translator_submitDecodeUnit t1 ?unitI = (r2, t2)"
    by (cases "translator_submitDecodeUnit t1 ?unitI")
  have lp2: "lacks_parameter_sets t1 ?unitI"
    by (simp add: x1 ev)
  have pre2: "(type ?unitI = Key \<or> has_description t1) \<and> translator_getCurrentConfig t1 \<noteq> None
              \<and> sps_parses t1 ?unitI"
    using h1 by (simp add: x1 ev)
  have inc2: "length_prefixed (included_slices t1 ?unitI) = [0, 0, 0, 2, 0x65, 0x88]"
    by (simp add: x1 ev)
  have d2: "description_from t1 (sets_after_scan t1 ?unitI) = None"
    using h1(2) by (simp add: x1 ev)
  from translator_description_latch [OF run2] pre2 h1(1)
  have r2: "r2 = Inr (Translated None (Some [0, 0, 0, 2, 0x65, 0x88]))" and h2: "has_description t2"
    unfolding inc2 d2 by auto

  \<comment> \<open>H.265: a delta unit first\<close>
  obtain r3 t3 where run3: "translator_submitDecodeUnit ?u0 ?unitD = (r3, t3)"
    by (cases "translator_submitDecodeUnit ?u0 ?unitD")
  have pre3: "\<not> has_description ?u0 \<and> type ?unitD = Delta \<and> translator_getCurrentConfig ?u0 \<noteq> None"
    by (simp add: ev)
  from translator_description_latch [OF run3] pre3
  have r3: "r3 = Inr (Translated None None)" "t3 = ?u0"
    by blast+

  \<comment> \<open>a key unit with VPS, SPS and a slice, but no PPS\<close>
  obtain r4 u1 where run4: "translator_submitDecodeUnit ?u0 ?unitV = (r4, u1)"
    by (cases "translator_submitDecodeUnit ?u0 ?unitV")
  have pre4: "(type ?unitV = Key \<or> has_description ?u0) \<and> translator_getCurrentConfig ?u0 \<noteq> None
              \<and> sps_parses ?u0 ?unitV"
    by (simp add: ev)
  have inc4: "length_prefixed (included_slices ?u0 ?unitV) = [0, 0, 0, 3, 0x26, 0x01, 0xAF]"
    by (simp add: ev)
  have s4: "sets_after_scan ?u0 ?unitV = [Some [0x40, 0x01, 0x0C], Some [0x42, 0x01, 0x01], None]"
    by (simp add: ev)
  have d4: "description_from ?u0 (sets_after_scan ?u0 ?unitV) = None"
    unfolding s4 by simp
  from translator_description_latch [OF run4] pre4
  have r4: "r4 = Inr (Translated None (Some [0, 0, 0, 3, 0x26, 0x01, 0xAF]))"
    and h4: "\<not> has_description u1"
      "pending_sets u1 = [Some [0x40, 0x01, 0x0C], Some [0x42, 0x01, 0x01], None]"
      "translator_getCurrentConfig u1 \<noteq> None"
    unfolding inc4 d4 s4 using pre3 by auto
  obtain y1 where y1: "u1 = H265Translator y1"
    using translator_same_codec [OF run4] by auto

  \<comment> \<open>then a key unit with the PPS\<close>
  obtain r5 u2 where run5: "translator_submitDecodeUnit u1 ?unitP = (r5, u2)"
    by (cases "translator_submitDecodeUnit u1 ?unitP")
  have pre5: "(type ?unitP = Key \<or> has_description u1) \<and> translator_getCurrentConfig u1 \<noteq> None
              \<and> sps_parses u1 ?unitP"
    using h4 by (simp add: y1 ev)
  have inc5: "length_prefixed (included_slices u1 ?unitP) = [0, 0, 0, 3, 0x26, 0x01, 0xAF]"
    by (simp add: y1 ev)
  have d5: "description_from u1 (sets_after_scan u1 ?unitP)
              = Some [1, 0, 0, 0, 0, 0, 0, 0, 0, 0, 0, 0, 0, 0xF0, 0x00, 0xFC, 0xFD, 0xF8, 0xF8,
                      0x00, 0x00, 0x0F, 3,
                      0x20, 0, 1, 0, 3, 0x40, 0x01, 0x0C,
                      0x21, 0, 1, 0, 3, 0x42, 0x01, 0x01,
                      0x22, 0, 1, 0, 3, 0x44, 0x01, 0xC1]"
    using h4(2) by (simp add: y1 ev)
  from translator_description_latch [OF run5] pre5
  obtain cfg2 where r5: "r5 = Inr (Translated (Some cfg2) (Some [0, 0, 0, 3, 0x26, 0x01, 0xAF]))"
    and c5: "description cfg2
         = Some [1, 0, 0, 0, 0, 0, 0, 0, 0, 0, 0, 0, 0, 0xF0, 0x00, 0xFC, 0xFD, 0xF8, 0xF8,
                 0x00, 0x00, 0x0F, 3,
                 0x20, 0, 1, 0, 3, 0x40, 0x01, 0x0C,
                 0x21, 0, 1, 0, 3, 0x42, 0x01, 0x01,
                 0x22, 0, 1, 0, 3, 0x44, 0x01, 0xC1]"
    and h5: "has_description u2" "no_pending_sets u2"
    unfolding inc5 d5 by auto
  show ?thesis
    apply (rule exI [of _ cfg1], rule exI [of _ t1], rule exI [of _ t2])
    apply (rule exI [of _ u1], rule exI [of _ cfg2], rule exI [of _ u2])
    using fresh run1 r1 c1 h1 lp2 run2 r2 h2 run3 r3 run4 r4 h4 run5 r5 c5 h5
    by simp
qed

end
